theory Spec2Isabelle
  imports Main "HOL-Library.Multiset" "HOL-Library.AList"
begin

section \<open>Values, errors and the standard-library functions the program calls\<close>

text \<open>
  The dynamic values an \<^verbatim>\<open>interface{}\<close> holds in this program: what
  \<^verbatim>\<open>json.Unmarshal\<close> produces in a \<^verbatim>\<open>map[string]interface{}\<close> (nil, bool, number,
  string, slice, map) and the \<^verbatim>\<open>time.Time\<close> that \<^verbatim>\<open>fetchDetailOfTag\<close> stores under
  \<^verbatim>\<open>"created"\<close>. A \<^verbatim>\<open>time.Time\<close> is modelled by its instant, an integer count of
  nanoseconds relative to the zero value \<^verbatim>\<open>time.Time{}\<close>, which is therefore \<open>0\<close>;
  \<^verbatim>\<open>Before\<close> and \<^verbatim>\<open>After\<close> compare instants. The payload of a JSON number is never
  inspected by the program. A map is an association list read with \<open>map_of\<close>; a key
  that is absent reads as nil.
\<close>

datatype iface =
    VNil
  | VBool bool
  | VNum int
  | VStr string
  | VList "iface list"
  | VMap "(string \<times> iface) list"
  | VTime int

type_synonym jmap = "(string \<times> iface) list"

text \<open>
  Go errors. \<open>EOF\<close> is the sentinel \<^verbatim>\<open>io.EOF\<close>, the only error value the program
  compares against; the others name the library call an error comes from.
\<close>

datatype error =
    EOF
  | GetError string
  | ReadError string
  | SyntaxError string
  | ParseError string

text \<open>
  What \<^verbatim>\<open>httpClient.Get\<close> followed by \<^verbatim>\<open>ioutil.ReadAll(res.Body)\<close> delivers: the
  status code, the bytes read, and the error of the read, if any.
\<close>

record Response =
  StatusCode :: int
  Body :: string
  ReadErr :: "error option"

text \<open>
  The library functions are parameters of the model:
  \<^item> \<open>Unmarshal\<close> is \<^verbatim>\<open>json.Unmarshal\<close> into a \<^verbatim>\<open>map[string]interface{}\<close>;
  \<^item> \<open>Parse\<close> is \<^verbatim>\<open>time.Parse(time.RFC3339Nano, _)\<close>, which returns the zero
    \<^verbatim>\<open>time.Time\<close> together with its error;
  \<^item> \<open>EqualFold\<close> is \<^verbatim>\<open>strings.EqualFold\<close>, equality under Unicode case folding;
  \<^item> \<open>Get\<close> is the registry seen through \<^verbatim>\<open>httpClient.Get\<close>: the answer to the
    \<open>n\<close>-th request of the run (\<^verbatim>\<open>reqCounter\<close> of \<^verbatim>\<open>regman.go\<close>) for a URL.
\<close>

type_synonym unmarshal = "string \<Rightarrow> error + jmap"
type_synonym parse = "string \<Rightarrow> error + int"
type_synonym transport = "nat \<Rightarrow> string \<Rightarrow> error + Response"

section \<open>Configuration lookup\<close>

record Registry =
  Alias :: string
  Host :: string
  Port :: int
  Schema :: string
  Addr :: string

text \<open>
  \<^verbatim>\<open>func (conf *Config) findRegistry(alias string) (*Registry, bool)\<close>: the pair
  \<^verbatim>\<open>(reg, true)\<close> is \<open>Some reg\<close>, the pair \<^verbatim>\<open>(nil, false)\<close> is \<open>None\<close>.
\<close>

fun findRegistry :: "(string \<Rightarrow> string \<Rightarrow> bool) \<Rightarrow> Registry list \<Rightarrow> string \<Rightarrow> Registry option" where
  "findRegistry EqualFold [] alias = None"
| "findRegistry EqualFold (reg # regs) alias =
     (if EqualFold (Alias reg) alias then Some reg else findRegistry EqualFold regs alias)"

section \<open>The fetcher\<close>

text \<open>
  \<^verbatim>\<open>getForMap\<close> (\<^verbatim>\<open>getAsMap\<close> in \<^verbatim>\<open>regman.go\<close>), applied to the outcome of
  \<^verbatim>\<open>httpClient.Get(url)\<close>. The result is the pair \<^verbatim>\<open>(m, err)\<close>: \<open>Inl err\<close> when
  \<^verbatim>\<open>err != nil\<close>, \<open>Inr m\<close> otherwise.
\<close>

definition getForMap :: "unmarshal \<Rightarrow> error + Response \<Rightarrow> error + jmap" where
  "getForMap Unmarshal got =
     (case got of
        Inl err \<Rightarrow> Inl err
      | Inr res \<Rightarrow>
          (case ReadErr res of
             Some err \<Rightarrow>
               if err \<noteq> EOF \<or> StatusCode res < 200 \<or> StatusCode res \<ge> 300
               then Inl err
               else Unmarshal (Body res)
           | None \<Rightarrow> Unmarshal (Body res)))"

section \<open>Times and sorting\<close>

text \<open>\<^verbatim>\<open>time.Time.Before\<close> and \<^verbatim>\<open>After\<close> (and \<^verbatim>\<open>JsonTime.After\<close>), on instants.\<close>

definition Before :: "int \<Rightarrow> int \<Rightarrow> bool" where
  "Before t u = (t < u)"

definition After :: "int \<Rightarrow> int \<Rightarrow> bool" where
  "After t u = (u < t)"

text \<open>
  \<^verbatim>\<open>sort.Slice(s, less)\<close>. On a short slice (of at most six elements in every
  release of Go's \<^verbatim>\<open>sort\<close> package, of at most twelve in the recent ones) the
  implementation is an insertion sort: element \<open>i\<close> is swapped leftwards while
  \<^verbatim>\<open>less(j, j-1)\<close> holds. \<open>insert_left\<close> moves one element into an already ordered
  prefix, given back to front. Longer slices go through a quicksort that does not
  keep equal elements in place; for them the model is exact up to the order of
  equal elements.
\<close>

fun insert_left :: "('a \<Rightarrow> 'a \<Rightarrow> bool) \<Rightarrow> 'a \<Rightarrow> 'a list \<Rightarrow> 'a list" where
  "insert_left lt x [] = [x]"
| "insert_left lt x (y # ys) =
     (if lt x y then y # insert_left lt x ys else x # y # ys)"

definition sort_Slice :: "('a \<Rightarrow> 'a \<Rightarrow> bool) \<Rightarrow> 'a list \<Rightarrow> 'a list" where
  "sort_Slice lt xs = rev (fold (insert_left lt) xs [])"

section \<open>The three kinds of task\<close>

definition DataTypeRepoList :: string where "DataTypeRepoList = ''rs''"
definition DataTypeTagList :: string where "DataTypeTagList = ''ts''"
definition DataTypeTagDetail :: string where "DataTypeTagDetail = ''td''"

record PayLoad =
  Type :: string
  Repo :: string
  Tag :: string
  Target :: iface

text \<open>
  A task is a goroutine. What it does to the rest of the program is the sequence of
  its effects: a line written with \<^verbatim>\<open>log.Println\<close>, a send on the unbuffered channel
  \<^verbatim>\<open>data\<close>, \<^verbatim>\<open>wg.Add(n)\<close>, the deferred \<^verbatim>\<open>wg.Done()\<close>, and a run-time panic (a failed
  type assertion or an index out of range). A panic runs the deferred
  \<^verbatim>\<open>wg.Done()\<close> while unwinding and then, nothing recovering it, ends the process:
  \<open>[WgDone, Panic]\<close>.
\<close>

datatype action =
    Log error
  | Send PayLoad
  | WgAdd nat
  | WgDone
  | Panic

definition fetchRepos :: "error + jmap \<Rightarrow> action list" where
  "fetchRepos got =
     (case got of
        Inl err \<Rightarrow> [Log err, WgDone]
      | Inr m \<Rightarrow>
          (case map_of m ''repositories'' of
             Some (VList repos) \<Rightarrow>
               [Send \<lparr>Type = DataTypeRepoList, Repo = [], Tag = [], Target = VList repos\<rparr>,
                WgAdd (length repos), WgDone]
           | _ \<Rightarrow> [WgDone, Panic]))"

definition fetchTags :: "string \<Rightarrow> error + jmap \<Rightarrow> action list" where
  "fetchTags repo got =
     (case got of
        Inl err \<Rightarrow> [Log err, WgDone]
      | Inr m \<Rightarrow>
          (case map_of m ''tags'' of
             Some (VList tags) \<Rightarrow>
               [Send \<lparr>Type = DataTypeTagList, Repo = repo, Tag = [], Target = VList tags\<rparr>,
                WgAdd (length tags), WgDone]
           | _ \<Rightarrow> [WgDone, Panic]))"

text \<open>
  The body of the loop over \<^verbatim>\<open>m["history"]\<close> in \<^verbatim>\<open>fetchDetailOfTag\<close>, for one
  \<^verbatim>\<open>item\<close>: the three type assertions panic, an error of \<^verbatim>\<open>json.Unmarshal\<close> is logged
  and returns from the function, the error of \<^verbatim>\<open>time.Parse\<close> is discarded and the
  zero time it comes with is kept.
\<close>

datatype 'a outcome = Ok 'a | Failed error | Panicked

definition created_of :: "parse \<Rightarrow> string \<Rightarrow> int" where
  "created_of Parse c = (case Parse c of Inl err \<Rightarrow> 0 | Inr t \<Rightarrow> t)"

definition history_item :: "unmarshal \<Rightarrow> parse \<Rightarrow> iface \<Rightarrow> int outcome" where
  "history_item Unmarshal Parse item =
     (case item of
        VMap i \<Rightarrow>
          (case map_of i ''v1Compatibility'' of
             Some (VStr str) \<Rightarrow>
               (case Unmarshal str of
                  Inl err \<Rightarrow> Failed err
                | Inr msg \<Rightarrow>
                    (case map_of msg ''created'' of
                       Some (VStr c) \<Rightarrow> Ok (created_of Parse c)
                     | _ \<Rightarrow> Panicked))
           | _ \<Rightarrow> Panicked)
      | _ \<Rightarrow> Panicked)"

fun history_loop :: "unmarshal \<Rightarrow> parse \<Rightarrow> iface list \<Rightarrow> int list \<Rightarrow> int list outcome" where
  "history_loop Unmarshal Parse [] h = Ok h"
| "history_loop Unmarshal Parse (item # items) h =
     (case history_item Unmarshal Parse item of
        Ok created \<Rightarrow> history_loop Unmarshal Parse items (h @ [created])
      | Failed err \<Rightarrow> Failed err
      | Panicked \<Rightarrow> Panicked)"

definition fetchDetailOfTag ::
  "unmarshal \<Rightarrow> parse \<Rightarrow> string \<Rightarrow> string \<Rightarrow> error + jmap \<Rightarrow> action list" where
  "fetchDetailOfTag Unmarshal Parse repo tag got =
     (case got of
        Inl err \<Rightarrow> [Log err, WgDone]
      | Inr m \<Rightarrow>
          (case map_of m ''history'' of
             Some (VList items) \<Rightarrow>
               (case history_loop Unmarshal Parse items [] of
                  Failed err \<Rightarrow> [Log err, WgDone]
                | Panicked \<Rightarrow> [WgDone, Panic]
                | Ok h0 \<Rightarrow>
                    (let h = sort_Slice Before h0 in
                     if length h = 0 then [WgDone, Panic]
                     else [Send \<lparr>Type = DataTypeTagDetail, Repo = repo, Tag = tag,
                                  Target = VMap [(''created'', VTime (h ! (length h - 1)))]\<rparr>,
                           WgDone]))
           | _ \<Rightarrow> [WgDone, Panic]))"

section \<open>The dispatcher\<close>

text \<open>
  The three functions started with \<^verbatim>\<open>go\<close>, the URL each one requests, and what each
  one does with the answer of \<^verbatim>\<open>getForMap\<close>. \<^verbatim>\<open>fmt.Sprintf\<close> with \<^verbatim>\<open>%v\<close> writes a
  string as it is.
\<close>

datatype call = FetchRepos | FetchTags string | FetchDetailOfTag string string

fun call_url :: "string \<Rightarrow> call \<Rightarrow> string" where
  "call_url addr FetchRepos = addr @ ''/v2/_catalog''"
| "call_url addr (FetchTags repo) = addr @ ''/v2/'' @ repo @ ''/tags/list''"
| "call_url addr (FetchDetailOfTag repo tag) = addr @ ''/v2/'' @ repo @ ''/manifests/'' @ tag"

fun task :: "unmarshal \<Rightarrow> parse \<Rightarrow> call \<Rightarrow> error + jmap \<Rightarrow> action list" where
  "task Unmarshal Parse FetchRepos got = fetchRepos got"
| "task Unmarshal Parse (FetchTags repo) got = fetchTags repo got"
| "task Unmarshal Parse (FetchDetailOfTag repo tag) got =
     fetchDetailOfTag Unmarshal Parse repo tag got"

text \<open>
  A goroutine is either started and not yet run, or has made its request and has
  the rest of its effects ahead of it; \<open>Running []\<close> has returned.
\<close>

datatype goroutine = Spawned call | Running "action list"

text \<open>
  \<^verbatim>\<open>type TagDetail struct { Tag string; Created JsonTime }\<close>; the field \<^verbatim>\<open>Tag\<close> is
  written \<open>Tag'\<close>, the name \<open>Tag\<close> being the field of \<open>PayLoad\<close>.
\<close>

record TagDetail =
  Tag' :: string
  Created :: int

text \<open>
  The goroutine \<^verbatim>\<open>go func() { wg.Wait(); done <- struct{}{} }()\<close>: inside
  \<^verbatim>\<open>wg.Wait()\<close>, blocked in the send on \<^verbatim>\<open>done\<close>, or finished.
\<close>

datatype wstate = Waiting | Signalling | Exited

text \<open>
  The state of one call of \<^verbatim>\<open>getRepoInfo\<close>: the counter of the \<^verbatim>\<open>sync.WaitGroup\<close>,
  the number of requests made so far, the goroutines started, the map \<^verbatim>\<open>result\<close>
  (keys in the order of their first insertion; Go gives a map no order), the watcher,
  the value returned once the function has returned, and whether the process has
  died of a panic. \<open>received\<close> is not in the program: it records the payloads the
  \<^verbatim>\<open>select\<close> has taken from \<^verbatim>\<open>data\<close>, in order.
\<close>

record state =
  wg :: int
  reqCounter :: nat
  goroutines :: "goroutine list"
  result :: "(string \<times> TagDetail list) list"
  watcher :: wstate
  returned :: "(string \<times> TagDetail list) list option"
  panicked :: bool
  received :: "PayLoad list"

text \<open>
  The loops \<^verbatim>\<open>for _, repo := range payload.Target.([]interface{}) { go ... repo.(string) ... }\<close>:
  the goroutines started, and whether an element that is not a string stopped the
  loop with a panic.
\<close>

fun spawn :: "(string \<Rightarrow> call) \<Rightarrow> iface list \<Rightarrow> goroutine list \<times> bool" where
  "spawn mk [] = ([], False)"
| "spawn mk (v # vs) =
     (case v of
        VStr s \<Rightarrow> (case spawn mk vs of (gs, p) \<Rightarrow> (Spawned (mk s) # gs, p))
      | _ \<Rightarrow> ([], True))"

definition append_detail ::
  "string \<Rightarrow> TagDetail \<Rightarrow> (string \<times> TagDetail list) list \<Rightarrow> (string \<times> TagDetail list) list" where
  "append_detail repo d res =
     AList.update repo ((case map_of res repo of None \<Rightarrow> [] | Some tags \<Rightarrow> tags) @ [d]) res"

text \<open>
  The \<^verbatim>\<open>switch payload.Type\<close> of the \<^verbatim>\<open>case payload := <- data\<close> branch. The
  type assertions on \<^verbatim>\<open>payload.Target\<close>, and the one of \<^verbatim>\<open>NewJsonTime\<close> on
  \<^verbatim>\<open>target["created"]\<close>, panic when they fail.
\<close>

definition on_payload :: "PayLoad \<Rightarrow> state \<Rightarrow> state" where
  "on_payload payload s =
     (if Type payload = DataTypeRepoList then
        (case Target payload of
           VList repos \<Rightarrow>
             (case spawn FetchTags repos of
                (gs, p) \<Rightarrow> s\<lparr>goroutines := goroutines s @ gs, panicked := p\<rparr>)
         | _ \<Rightarrow> s\<lparr>panicked := True\<rparr>)
      else if Type payload = DataTypeTagList then
        (case Target payload of
           VList tags \<Rightarrow>
             (case spawn (FetchDetailOfTag (Repo payload)) tags of
                (gs, p) \<Rightarrow> s\<lparr>goroutines := goroutines s @ gs, panicked := p\<rparr>)
         | _ \<Rightarrow> s\<lparr>panicked := True\<rparr>)
      else if Type payload = DataTypeTagDetail then
        (case Target payload of
           VMap target \<Rightarrow>
             (case map_of target ''created'' of
                Some (VTime t) \<Rightarrow>
                  s\<lparr>result := append_detail (Repo payload) \<lparr>Tag' = Tag payload, Created = t\<rparr> (result s)\<rparr>
              | _ \<Rightarrow> s\<lparr>panicked := True\<rparr>)
         | _ \<Rightarrow> s\<lparr>panicked := True\<rparr>)
      else s)"

text \<open>
  The \<^verbatim>\<open>case <- done\<close> branch: every slice of the map is sorted in place, with
  \<^verbatim>\<open>tags[i].Created.After(tags[j].Created)\<close> as the order.
\<close>

definition finalize :: "(string \<times> TagDetail list) list \<Rightarrow> (string \<times> TagDetail list) list" where
  "finalize res =
     map (\<lambda>(repo, tags). (repo, sort_Slice (\<lambda>t u. After (Created t) (Created u)) tags)) res"

text \<open>
  One step of the program is one of:
  \<^item> \<open>Run i\<close>: goroutine \<open>i\<close> goes on. If it has not run yet it makes its request and
    works on the answer up to its first effect; otherwise it performs its next
    effect, unless that is a send, which waits for the receiver. \<^verbatim>\<open>wg.Done()\<close> on a
    counter of zero panics (\<^verbatim>\<open>sync: negative WaitGroup counter\<close>).
  \<^item> \<open>Recv i\<close>: the \<^verbatim>\<open>select\<close> takes the payload that goroutine \<open>i\<close> is sending
    and handles it.
  \<^item> \<open>Wake\<close>: \<^verbatim>\<open>wg.Wait()\<close> returns, the counter being zero.
  \<^item> \<open>Finish\<close>: the \<^verbatim>\<open>select\<close> takes the watcher's value from \<^verbatim>\<open>done\<close>, and
    \<^verbatim>\<open>getRepoInfo\<close> returns.
  A step that cannot be taken leaves the state as it is, and so does every step after
  the function has returned or the process has died. The goroutines that a handler
  starts are all there once the handler is done: a goroutine running while its
  siblings are still being started sees nothing of them.
\<close>

datatype event = Run nat | Recv nat | Wake | Finish

definition perform :: "nat \<Rightarrow> action \<Rightarrow> action list \<Rightarrow> state \<Rightarrow> state" where
  "perform i a rest s =
     (case a of
        Log err \<Rightarrow> s\<lparr>goroutines := (goroutines s)[i := Running rest]\<rparr>
      | Send payload \<Rightarrow> s
      | WgAdd n \<Rightarrow> s\<lparr>wg := wg s + int n, goroutines := (goroutines s)[i := Running rest]\<rparr>
      | WgDone \<Rightarrow>
          if wg s - 1 < 0 then s\<lparr>panicked := True\<rparr>
          else s\<lparr>wg := wg s - 1, goroutines := (goroutines s)[i := Running rest]\<rparr>
      | Panic \<Rightarrow> s\<lparr>panicked := True\<rparr>)"

definition step :: "transport \<Rightarrow> unmarshal \<Rightarrow> parse \<Rightarrow> string \<Rightarrow> event \<Rightarrow> state \<Rightarrow> state" where
  "step Get Unmarshal Parse addr ev s =
     (if panicked s \<or> returned s \<noteq> None then s
      else
        (case ev of
           Run i \<Rightarrow>
             if i < length (goroutines s) then
               (case goroutines s ! i of
                  Spawned c \<Rightarrow>
                    s\<lparr>reqCounter := reqCounter s + 1,
                      goroutines := (goroutines s)
                        [i := Running (task Unmarshal Parse c
                                 (getForMap Unmarshal (Get (reqCounter s) (call_url addr c))))]\<rparr>
                | Running [] \<Rightarrow> s
                | Running (a # rest) \<Rightarrow> perform i a rest s)
             else s
         | Recv i \<Rightarrow>
             if i < length (goroutines s) then
               (case goroutines s ! i of
                  Running (Send payload # rest) \<Rightarrow>
                    on_payload payload
                      (s\<lparr>goroutines := (goroutines s)[i := Running rest],
                         received := received s @ [payload]\<rparr>)
                | _ \<Rightarrow> s)
             else s
         | Wake \<Rightarrow>
             if watcher s = Waiting \<and> wg s = 0 then s\<lparr>watcher := Signalling\<rparr> else s
         | Finish \<Rightarrow>
             if watcher s = Signalling
             then s\<lparr>watcher := Exited, returned := Some (finalize (result s))\<rparr>
             else s))"

text \<open>
  \<^verbatim>\<open>getRepoInfo\<close> starts with \<^verbatim>\<open>wg.Add(1)\<close>, \<^verbatim>\<open>go fetchRepos(...)\<close> and the watcher,
  and then runs under a schedule, the list of steps taken.
\<close>

definition init :: state where
  "init = \<lparr>wg = 1, reqCounter = 0, goroutines = [Spawned FetchRepos], result = [],
           watcher = Waiting, returned = None, panicked = False, received = []\<rparr>"

definition getRepoInfo ::
  "transport \<Rightarrow> unmarshal \<Rightarrow> parse \<Rightarrow> string \<Rightarrow> event list \<Rightarrow> state" where
  "getRepoInfo Get Unmarshal Parse addr sched = fold (step Get Unmarshal Parse addr) sched init"

section \<open>Notions used in the statements\<close>

text \<open>
  The repository list returned by the catalog call: the strings in the list that
  \<^verbatim>\<open>fetchRepos\<close> reads from \<^verbatim>\<open>m["repositories"]\<close>.
\<close>

fun strings_of :: "iface list \<Rightarrow> string list" where
  "strings_of [] = []"
| "strings_of (VStr s # vs) = s # strings_of vs"
| "strings_of (v # vs) = strings_of vs"

definition catalog_repos :: "unmarshal \<Rightarrow> error + Response \<Rightarrow> string list" where
  "catalog_repos Unmarshal got =
     (case getForMap Unmarshal got of
        Inl err \<Rightarrow> []
      | Inr m \<Rightarrow>
          (case map_of m ''repositories'' of
             Some (VList repos) \<Rightarrow> strings_of repos
           | _ \<Rightarrow> []))"

text \<open>
  A history entry whose embedded document decodes and holds a string under
  \<^verbatim>\<open>"created"\<close> that \<^verbatim>\<open>time.Parse\<close> rejects.
\<close>

definition created_unparsable :: "unmarshal \<Rightarrow> parse \<Rightarrow> iface \<Rightarrow> bool" where
  "created_unparsable Unmarshal Parse item =
     (case item of
        VMap i \<Rightarrow>
          (case map_of i ''v1Compatibility'' of
             Some (VStr str) \<Rightarrow>
               (case Unmarshal str of
                  Inl err \<Rightarrow> False
                | Inr msg \<Rightarrow>
                    (case map_of msg ''created'' of
                       Some (VStr c) \<Rightarrow> isl (Parse c)
                     | _ \<Rightarrow> False))
           | _ \<Rightarrow> False)
      | _ \<Rightarrow> False)"

text \<open>
  Among the payloads received there is a tag list for \<open>repo\<close> that is not empty, and
  there is a tag detail for \<open>repo\<close>.
\<close>

definition has_tags :: "PayLoad list \<Rightarrow> string \<Rightarrow> bool" where
  "has_tags ps repo =
     list_ex (\<lambda>p. Type p = DataTypeTagList \<and> Repo p = repo \<and>
                   (case Target p of VList tags \<Rightarrow> tags \<noteq> [] | _ \<Rightarrow> False)) ps"

definition has_detail :: "PayLoad list \<Rightarrow> string \<Rightarrow> bool" where
  "has_detail ps repo = list_ex (\<lambda>p. Type p = DataTypeTagDetail \<and> Repo p = repo) ps"

section \<open>Invariants of the dispatcher\<close>

text \<open>
  The payloads a goroutine has still to send. \<open>within D\<close>: nothing in the state
  names a repository outside \<open>D\<close>, where before the first request the only
  goroutine is \<^verbatim>\<open>fetchRepos\<close>. \<open>sourced\<close>: the keys of the result are the
  repositories of the tag details received, no key has an empty sequence, and every
  task for a tag, and so every tag detail, goes back to a tag list received that was
  not empty.
\<close>

fun sends :: "action list \<Rightarrow> PayLoad list" where
  "sends [] = []"
| "sends (Send p # as) = p # sends as"
| "sends (a # as) = sends as"

definition payload_within :: "string set \<Rightarrow> PayLoad \<Rightarrow> bool" where
  "payload_within D p =
     (if Type p = DataTypeRepoList
      then (case Target p of VList repos \<Rightarrow> set (strings_of repos) \<subseteq> D | _ \<Rightarrow> True)
      else Repo p \<in> D)"

fun goroutine_within :: "string set \<Rightarrow> goroutine \<Rightarrow> bool" where
  "goroutine_within D (Spawned FetchRepos) = False"
| "goroutine_within D (Spawned (FetchTags repo)) = (repo \<in> D)"
| "goroutine_within D (Spawned (FetchDetailOfTag repo tag)) = (repo \<in> D)"
| "goroutine_within D (Running as) = (\<forall>p\<in>set (sends as). payload_within D p)"

definition within :: "string set \<Rightarrow> state \<Rightarrow> bool" where
  "within D s =
     ((reqCounter s = 0 \<longrightarrow> goroutines s = [Spawned FetchRepos]) \<and>
      (reqCounter s \<noteq> 0 \<longrightarrow> (\<forall>g\<in>set (goroutines s). goroutine_within D g)) \<and>
      fst ` set (result s) \<subseteq> D \<and>
      (\<forall>out. returned s = Some out \<longrightarrow> out = finalize (result s)))"

fun goroutine_sourced :: "PayLoad list \<Rightarrow> goroutine \<Rightarrow> bool" where
  "goroutine_sourced ps (Spawned (FetchDetailOfTag repo tag)) = has_tags ps repo"
| "goroutine_sourced ps (Spawned c) = True"
| "goroutine_sourced ps (Running as) =
     (\<forall>p\<in>set (sends as). Type p = DataTypeTagDetail \<longrightarrow> has_tags ps (Repo p))"

definition sourced :: "state \<Rightarrow> bool" where
  "sourced s =
     ((\<forall>g\<in>set (goroutines s). goroutine_sourced (received s) g) \<and>
      (\<forall>p\<in>set (received s). Type p = DataTypeTagDetail \<longrightarrow> has_tags (received s) (Repo p)) \<and>
      (\<not> panicked s \<longrightarrow>
         fst ` set (result s) = {repo. has_detail (received s) repo}) \<and>
      (\<forall>(repo, tags)\<in>set (result s). tags \<noteq> []) \<and>
      (\<forall>out. returned s = Some out \<longrightarrow> out = finalize (result s) \<and> \<not> panicked s))"

section \<open>Example inputs\<close>

text \<open>
  \<^verbatim>\<open>strings.EqualFold\<close> on ASCII strings, and the table that \<^verbatim>\<open>initConfig\<close> writes
  as the default configuration, with the addresses \<^verbatim>\<open>loadConfig\<close> computes.
\<close>

definition ascii_lower :: "char \<Rightarrow> char" where
  "ascii_lower c =
     (if (65::nat) \<le> of_char c \<and> of_char c \<le> (90::nat) then char_of (of_char c + (32::nat)) else c)"

definition ascii_EqualFold :: "string \<Rightarrow> string \<Rightarrow> bool" where
  "ascii_EqualFold s t = (map ascii_lower s = map ascii_lower t)"

definition defaultConfig :: "Registry list" where
  "defaultConfig =
     [\<lparr>Alias = ''local'', Host = ''127.0.0.1'', Port = 5001, Schema = ''http'',
       Addr = ''http://127.0.0.1:5001''\<rparr>,
      \<lparr>Alias = ''reg01'', Host = ''reg01.example.org'', Port = 443, Schema = ''https'',
       Addr = ''https://reg01.example.org:443''\<rparr>,
      \<lparr>Alias = ''reg01'', Host = ''reg01.example.org'', Port = 55001, Schema = ''http'',
       Addr = ''http://reg01.example.org:55001''\<rparr>]"

text \<open>
  A decoder and a timestamp parser that know a few documents, written without the
  quotation marks of JSON, and a registry that serves a table of pages with status
  200 and refuses the connection for any other URL.
\<close>

definition documents :: "(string \<times> jmap) list" where
  "documents =
     [(''{repositories:[a,b]}'', [(''repositories'', VList [VStr ''a'', VStr ''b''])]),
      (''{tags:[v2,v1,v0]}'', [(''tags'', VList [VStr ''v2'', VStr ''v1'', VStr ''v0''])]),
      (''{tags:[]}'', [(''tags'', VList [])]),
      (''{history:[{v1Compatibility:{created:T3}},{v1Compatibility:{created:T5}}]}'',
         [(''history'', VList [VMap [(''v1Compatibility'', VStr ''{created:T3}'')],
                              VMap [(''v1Compatibility'', VStr ''{created:T5}'')]])]),
      (''{history:[{v1Compatibility:{created:T9}}]}'',
         [(''history'', VList [VMap [(''v1Compatibility'', VStr ''{created:T9}'')]])]),
      (''{created:T3}'', [(''created'', VStr ''T3'')]),
      (''{created:T5}'', [(''created'', VStr ''T5'')]),
      (''{created:T9}'', [(''created'', VStr ''T9'')]),
      (''{created:soon}'', [(''created'', VStr ''soon'')]),
      (''{created:later}'', [(''created'', VStr ''later'')])]"

definition demo_Unmarshal :: unmarshal where
  "demo_Unmarshal str =
     (case map_of documents str of
        Some m \<Rightarrow> Inr m
      | None \<Rightarrow>
          if str = [] then Inl (SyntaxError ''unexpected end of JSON input'')
          else Inl (SyntaxError ''invalid character''))"

definition demo_Parse :: parse where
  "demo_Parse c =
     (case map_of [(''T3'', 3), (''T5'', 5), (''T9'', 9)] c of
        Some t \<Rightarrow> Inr t
      | None \<Rightarrow> Inl (ParseError c))"

definition serve :: "(string \<times> string) list \<Rightarrow> transport" where
  "serve pages n url =
     (case map_of pages url of
        Some body \<Rightarrow> Inr \<lparr>StatusCode = 200, Body = body, ReadErr = None\<rparr>
      | None \<Rightarrow> Inl (GetError ''connection refused''))"

definition demo_pages :: "(string \<times> string) list" where
  "demo_pages =
     [(''reg/v2/_catalog'', ''{repositories:[a,b]}''),
      (''reg/v2/a/tags/list'', ''{tags:[v2,v1,v0]}''),
      (''reg/v2/b/tags/list'', ''{tags:[]}''),
      (''reg/v2/a/manifests/v2'',
         ''{history:[{v1Compatibility:{created:T3}},{v1Compatibility:{created:T5}}]}''),
      (''reg/v2/a/manifests/v1'',
         ''{history:[{v1Compatibility:{created:T3}},{v1Compatibility:{created:T5}}]}''),
      (''reg/v2/a/manifests/v0'', ''{history:[{v1Compatibility:{created:T9}}]}'')]"

text \<open>
  A schedule that lets every goroutine run to its end, each payload being received
  as soon as it is sent, and then wakes the watcher and returns.
\<close>

definition demo_sched :: "event list" where
  "demo_sched =
     [Run 0, Recv 0, Run 0, Run 0,
      Run 1, Recv 1, Run 1, Run 1,
      Run 2, Recv 2, Run 2, Run 2,
      Run 3, Recv 3, Run 3,
      Run 4, Recv 4, Run 4,
      Run 5, Recv 5, Run 5,
      Wake, Finish]"

definition demo_out :: "(string \<times> TagDetail list) list" where
  "demo_out =
     [(''a'', [\<lparr>Tag' = ''v0'', Created = 9\<rparr>, \<lparr>Tag' = ''v2'', Created = 5\<rparr>,
               \<lparr>Tag' = ''v1'', Created = 5\<rparr>])]"

text \<open>
  The same schedule with the tag details of \<^verbatim>\<open>v2\<close> and \<^verbatim>\<open>v1\<close> arriving in the
  other order, and a registry of which only the catalog can be reached.
\<close>

definition demo_sched' :: "event list" where
  "demo_sched' =
     [Run 0, Recv 0, Run 0, Run 0,
      Run 1, Recv 1, Run 1, Run 1,
      Run 2, Recv 2, Run 2, Run 2,
      Run 4, Recv 4, Run 4,
      Run 3, Recv 3, Run 3,
      Run 5, Recv 5, Run 5,
      Wake, Finish]"

definition catalog_only :: "(string \<times> string) list" where
  "catalog_only = [(''reg/v2/_catalog'', ''{repositories:[a,b]}'')]"

section \<open>Configuration lookup and the fetcher\<close>

lemma findRegistry_None:
  "findRegistry EqualFold regs alias = None \<longleftrightarrow> (\<forall>reg\<in>set regs. \<not> EqualFold (Alias reg) alias)"
  by (induction regs) auto

lemma findRegistry_first:
  "i < length regs \<Longrightarrow> EqualFold (Alias (regs ! i)) alias \<Longrightarrow>
   \<forall>j<i. \<not> EqualFold (Alias (regs ! j)) alias \<Longrightarrow>
   findRegistry EqualFold regs alias = Some (regs ! i)"
proof (induction regs arbitrary: i)
  case Nil
  then show ?case by simp
next
  case (Cons reg regs)
  show ?case
  proof (cases i)
    case 0
    with Cons.prems show ?thesis by simp
  next
    case (Suc k)
    with Cons.prems have "\<not> EqualFold (Alias reg) alias" by auto
    moreover have "findRegistry EqualFold regs alias = Some (regs ! k)"
      using Cons.prems Suc by (intro Cons.IH) auto
    ultimately show ?thesis using Suc by simp
  qed
qed

text \<open>
  C8. For every table of registries and every query string, \<open>findRegistry\<close> compares
  each alias with the query through \<^verbatim>\<open>strings.EqualFold\<close>, that is without regard
  to case, and returns the first registry whose alias matches: it returns none
  exactly when no alias matches, and otherwise the entry that matches and has no
  matching entry before it, so that of two entries with one alias the earlier wins.
\<close>

theorem findRegistry_first_match:
  "(findRegistry EqualFold regs alias = None \<longleftrightarrow>
      (\<forall>reg\<in>set regs. \<not> EqualFold (Alias reg) alias)) \<and>
   (\<forall>i<length regs.
      EqualFold (Alias (regs ! i)) alias \<and> (\<forall>j<i. \<not> EqualFold (Alias (regs ! j)) alias) \<longrightarrow>
      findRegistry EqualFold regs alias = Some (regs ! i))"
  using findRegistry_None findRegistry_first by blast

text \<open>
  In the default configuration the alias \<^verbatim>\<open>reg01\<close> stands twice; the query
  \<^verbatim>\<open>REG01\<close> finds the first, on port 443.
\<close>

theorem findRegistry_first_match_witness:
  "ascii_EqualFold (Alias (defaultConfig ! 1)) ''REG01'' \<and>
   ascii_EqualFold (Alias (defaultConfig ! 2)) ''REG01'' \<and>
   \<not> ascii_EqualFold (Alias (defaultConfig ! 0)) ''REG01'' \<and>
   findRegistry ascii_EqualFold defaultConfig ''REG01'' = Some (defaultConfig ! 1) \<and>
   Port (defaultConfig ! 1) = 443"
proof -
  have a: "ascii_EqualFold (Alias (defaultConfig ! 1)) ''REG01''" by code_simp
  have b: "ascii_EqualFold (Alias (defaultConfig ! 2)) ''REG01''" by code_simp
  have c: "\<not> ascii_EqualFold (Alias (defaultConfig ! 0)) ''REG01''" by code_simp
  have d: "(1::nat) < length defaultConfig" by (simp add: defaultConfig_def)
  have e: "\<forall>j<(1::nat). \<not> ascii_EqualFold (Alias (defaultConfig ! j)) ''REG01''"
    using c by simp
  have p: "Port (defaultConfig ! 1) = 443" by (simp add: defaultConfig_def)
  from findRegistry_first_match [of ascii_EqualFold defaultConfig "''REG01''"] d a e
  have "findRegistry ascii_EqualFold defaultConfig ''REG01'' = Some (defaultConfig ! 1)"
    by blast
  with a b c p show ?thesis by blast
qed

text \<open>
  C6, as amended. For every response whose body is read without an error,
  \<open>getForMap\<close> decodes the body as JSON whatever the status code, and returns what
  the decoder returns: an empty or undecodable body yields the decoder's own error,
  for a status outside 2xx as for one inside. The status is looked at only when the
  read of the body has failed: the error of the read is returned, unless it is
  \<^verbatim>\<open>io.EOF\<close> on a 2xx status, when the bytes read are decoded.
\<close>

theorem getForMap_status_blind:
  "(ReadErr res = None \<longrightarrow> getForMap Unmarshal (Inr res) = Unmarshal (Body res)) \<and>
   (ReadErr res = Some EOF \<and> 200 \<le> StatusCode res \<and> StatusCode res < 300 \<longrightarrow>
      getForMap Unmarshal (Inr res) = Unmarshal (Body res)) \<and>
   (\<forall>err. ReadErr res = Some err \<and> (err \<noteq> EOF \<or> StatusCode res < 200 \<or> 300 \<le> StatusCode res) \<longrightarrow>
      getForMap Unmarshal (Inr res) = Inl err)"
  by (auto simp: getForMap_def)

theorem getForMap_status_blind_witness:
  "getForMap demo_Unmarshal (Inr \<lparr>StatusCode = 404, Body = ''{tags:[]}'', ReadErr = None\<rparr>)
     = Inr [(''tags'', VList [])] \<and>
   getForMap demo_Unmarshal (Inr \<lparr>StatusCode = 200, Body = ''{tags:[]}'', ReadErr = Some EOF\<rparr>)
     = Inr [(''tags'', VList [])] \<and>
   getForMap demo_Unmarshal
     (Inr \<lparr>StatusCode = 200, Body = ''{tags:'', ReadErr = Some (ReadError ''connection reset'')\<rparr>)
     = Inl (ReadError ''connection reset'')"
proof -
  have u: "demo_Unmarshal ''{tags:[]}'' = Inr [(''tags'', VList [])]" by code_simp
  show ?thesis
    using getForMap_status_blind [of "\<lparr>StatusCode = 404, Body = ''{tags:[]}'', ReadErr = None\<rparr>" demo_Unmarshal]
      getForMap_status_blind [of "\<lparr>StatusCode = 200, Body = ''{tags:[]}'', ReadErr = Some EOF\<rparr>" demo_Unmarshal]
      getForMap_status_blind [of "\<lparr>StatusCode = 200, Body = ''{tags:'', ReadErr = Some (ReadError ''connection reset'')\<rparr>" demo_Unmarshal]
      u by simp
qed

text \<open>
  C6 as stated fails: a 404 with an empty body yields the syntax error of the
  decoder, the very error a 200 with an empty body yields.
\<close>

theorem getForMap_no_status_error:
  "getForMap demo_Unmarshal (Inr \<lparr>StatusCode = 404, Body = [], ReadErr = None\<rparr>)
     = Inl (SyntaxError ''unexpected end of JSON input'') \<and>
   getForMap demo_Unmarshal (Inr \<lparr>StatusCode = 200, Body = [], ReadErr = None\<rparr>)
     = Inl (SyntaxError ''unexpected end of JSON input'')"
  by code_simp

section \<open>Properties of the sort\<close>

lemma set_insert_left: "set (insert_left lt x r) = insert x (set r)"
  by (induction r) auto

lemma mset_insert_left: "mset (insert_left lt x r) = add_mset x (mset r)"
  by (induction r) auto

lemma desc_insert_left:
  fixes key :: "'a \<Rightarrow> 'b::linorder"
  assumes lt: "\<And>a b. lt a b \<longleftrightarrow> key a < key b"
  shows "sorted_wrt (\<lambda>a b. key b \<le> key a) r \<Longrightarrow>
         sorted_wrt (\<lambda>a b. key b \<le> key a) (insert_left lt x r)"
proof (induction r)
  case Nil
  then show ?case by simp
next
  case (Cons y ys)
  show ?case
  proof (cases "lt x y")
    case True
    then have "key x \<le> key y" using lt by (simp add: less_imp_le)
    with Cons True show ?thesis by (auto simp: set_insert_left)
  next
    case False
    then have "key y \<le> key x" using lt by (simp add: not_less)
    with Cons False show ?thesis by (auto intro: order_trans)
  qed
qed

lemma mset_fold_insert_left: "mset (fold (insert_left lt) xs r) = mset xs + mset r"
  by (induction xs arbitrary: r) (auto simp: mset_insert_left)

lemma desc_fold_insert_left:
  fixes key :: "'a \<Rightarrow> 'b::linorder"
  assumes lt: "\<And>a b. lt a b \<longleftrightarrow> key a < key b"
  shows "sorted_wrt (\<lambda>a b. key b \<le> key a) r \<Longrightarrow>
         sorted_wrt (\<lambda>a b. key b \<le> key a) (fold (insert_left lt) xs r)"
proof (induction xs arbitrary: r)
  case Nil
  then show ?case by simp
next
  case (Cons x xs)
  have "sorted_wrt (\<lambda>a b. key b \<le> key a) (insert_left lt x r)"
    using lt Cons.prems by (rule desc_insert_left)
  then show ?case using Cons.IH by simp
qed

lemma mset_sort_Slice: "mset (sort_Slice lt xs) = mset xs"
  by (simp add: sort_Slice_def mset_fold_insert_left)

lemma set_sort_Slice: "set (sort_Slice lt xs) = set xs"
  using mset_sort_Slice [of lt xs] by (metis set_mset_mset)

lemma length_sort_Slice: "length (sort_Slice lt xs) = length xs"
  using mset_sort_Slice [of lt xs] by (metis size_mset)

lemma sorted_sort_Slice:
  fixes key :: "'a \<Rightarrow> 'b::linorder"
  assumes lt: "\<And>a b. lt a b \<longleftrightarrow> key a < key b"
  shows "sorted_wrt (\<lambda>a b. key a \<le> key b) (sort_Slice lt xs)"
proof -
  have "sorted_wrt (\<lambda>a b. key b \<le> key a) (fold (insert_left lt) xs [])"
    by (rule desc_fold_insert_left [where key = key]) (simp_all add: lt)
  then show ?thesis by (simp add: sort_Slice_def sorted_wrt_rev)
qed

lemma sort_Slice_last_Max:
  fixes h :: "int list"
  assumes "h \<noteq> []"
  shows "sort_Slice Before h ! (length (sort_Slice Before h) - 1) = Max (set h)"
proof -
  let ?s = "sort_Slice Before h"
  have ne: "?s \<noteq> []" using assms length_sort_Slice [of Before h] by auto
  have srt: "sorted ?s"
    using sorted_sort_Slice [where key = "\<lambda>a::int. a" and lt = Before and xs = h]
    by (simp add: Before_def)
  have "?s ! (length ?s - 1) = last ?s" using ne by (simp add: last_conv_nth)
  also have "last ?s = Max (set ?s)"
  proof (rule sym, rule Max_eqI)
    show "finite (set ?s)" by simp
    show "last ?s \<in> set ?s" using ne by simp
    fix y assume "y \<in> set ?s"
    then obtain i where i: "i < length ?s" "?s ! i = y" by (auto simp: in_set_conv_nth)
    then have "?s ! i \<le> ?s ! (length ?s - 1)"
      using srt by (intro sorted_nth_mono) auto
    then show "y \<le> last ?s" using i ne by (simp add: last_conv_nth)
  qed
  finally show ?thesis by (simp add: set_sort_Slice)
qed

section \<open>The history of a manifest\<close>

lemma history_loop_all_Ok:
  "map (history_item Unmarshal Parse) items = map Ok ts \<Longrightarrow>
   history_loop Unmarshal Parse items h = Ok (h @ ts)"
proof (induction items arbitrary: h ts)
  case Nil
  then show ?case by simp
next
  case (Cons item items)
  then obtain t ts' where ts: "ts = t # ts'" by (cases ts) auto
  with Cons.prems have "history_item Unmarshal Parse item = Ok t"
    and "map (history_item Unmarshal Parse) items = map Ok ts'" by auto
  then show ?case using Cons.IH [of ts' "h @ [t]"] ts by simp
qed

lemma history_loop_first_Failed:
  "map (history_item Unmarshal Parse) pre = map Ok ts \<Longrightarrow>
   history_item Unmarshal Parse item = Failed err \<Longrightarrow>
   history_loop Unmarshal Parse (pre @ item # post) h = Failed err"
proof (induction pre arbitrary: h ts)
  case Nil
  then show ?case by simp
next
  case (Cons p pre)
  then obtain t ts' where ts: "ts = t # ts'" by (cases ts) auto
  with Cons.prems have "history_item Unmarshal Parse p = Ok t"
    and "map (history_item Unmarshal Parse) pre = map Ok ts'" by auto
  then show ?case using Cons.IH [of ts' "h @ [t]"] Cons.prems(2) by simp
qed

lemma fetchDetailOfTag_all_Ok:
  assumes "map_of m ''history'' = Some (VList items)"
    and "map (history_item Unmarshal Parse) items = map Ok ts" and "ts \<noteq> []"
  shows "fetchDetailOfTag Unmarshal Parse repo tag (Inr m) =
     [Send \<lparr>Type = DataTypeTagDetail, Repo = repo, Tag = tag,
            Target = VMap [(''created'', VTime (Max (set ts)))]\<rparr>, WgDone]"
proof -
  have "history_loop Unmarshal Parse items [] = Ok ts"
    using history_loop_all_Ok [OF assms(2), of "[]"] by simp
  moreover have "length (sort_Slice Before ts) \<noteq> 0"
    using assms(3) by (simp add: length_sort_Slice)
  ultimately show ?thesis
    using assms(1) sort_Slice_last_Max [OF assms(3)]
    by (simp add: fetchDetailOfTag_def Let_def)
qed

lemma fetchDetailOfTag_first_Failed:
  assumes "map_of m ''history'' = Some (VList (pre @ item # post))"
    and "map (history_item Unmarshal Parse) pre = map Ok ts"
    and "history_item Unmarshal Parse item = Failed err"
  shows "fetchDetailOfTag Unmarshal Parse repo tag (Inr m) = [Log err, WgDone]"
  using assms(1) history_loop_first_Failed [OF assms(2,3), of post "[]"]
  by (simp add: fetchDetailOfTag_def)

text \<open>
  C2, as amended. For every manifest whose history has \<open>N \<ge> 1\<close> entries that all
  decode, the \<^verbatim>\<open>created\<close> value that \<open>fetchDetailOfTag\<close> sends is the maximum of the
  \<open>N\<close> timestamps of the entries (an entry whose \<^verbatim>\<open>created\<close> string does not parse
  counting with the zero time). An entry whose embedded JSON fails to decode, the
  entries before it having decoded, is not skipped: the task logs the error and
  returns without sending anything, whatever the remaining entries hold.
\<close>

theorem latest_creation_of_decodable_history:
  assumes "map_of m ''history'' = Some (VList items)"
  shows "(\<forall>ts. map (history_item Unmarshal Parse) items = map Ok ts \<and> ts \<noteq> [] \<longrightarrow>
            fetchDetailOfTag Unmarshal Parse repo tag (Inr m) =
              [Send \<lparr>Type = DataTypeTagDetail, Repo = repo, Tag = tag,
                     Target = VMap [(''created'', VTime (Max (set ts)))]\<rparr>, WgDone]) \<and>
         (\<forall>pre item post ts err.
            items = pre @ item # post \<and> map (history_item Unmarshal Parse) pre = map Ok ts \<and>
            history_item Unmarshal Parse item = Failed err \<longrightarrow>
            fetchDetailOfTag Unmarshal Parse repo tag (Inr m) = [Log err, WgDone])"
  using assms fetchDetailOfTag_all_Ok fetchDetailOfTag_first_Failed by blast

theorem latest_creation_of_decodable_history_witness:
  "fetchDetailOfTag demo_Unmarshal demo_Parse ''a'' ''v1''
     (Inr [(''history'', VList [VMap [(''v1Compatibility'', VStr ''{created:T5}'')],
                                VMap [(''v1Compatibility'', VStr ''{created:soon}'')],
                                VMap [(''v1Compatibility'', VStr ''{created:T3}'')]])]) =
     [Send \<lparr>Type = DataTypeTagDetail, Repo = ''a'', Tag = ''v1'',
            Target = VMap [(''created'', VTime 5)]\<rparr>, WgDone] \<and>
   fetchDetailOfTag demo_Unmarshal demo_Parse ''a'' ''v2''
     (Inr [(''history'', VList [VMap [(''v1Compatibility'', VStr ''{created:T3}'')],
                                VMap [(''v1Compatibility'', VStr ''{created:'')],
                                VMap [(''v1Compatibility'', VStr ''{created:T9}'')]])]) =
     [Log (SyntaxError ''invalid character''), WgDone]"
proof -
  let ?e5 = "VMap [(''v1Compatibility'', VStr ''{created:T5}'')]"
  let ?e0 = "VMap [(''v1Compatibility'', VStr ''{created:soon}'')]"
  let ?e3 = "VMap [(''v1Compatibility'', VStr ''{created:T3}'')]"
  let ?e9 = "VMap [(''v1Compatibility'', VStr ''{created:T9}'')]"
  let ?bad = "VMap [(''v1Compatibility'', VStr ''{created:'')]"
  have i5: "history_item demo_Unmarshal demo_Parse ?e5 = Ok 5" by code_simp
  have i0: "history_item demo_Unmarshal demo_Parse ?e0 = Ok 0" by code_simp
  have i3: "history_item demo_Unmarshal demo_Parse ?e3 = Ok 3" by code_simp
  have ib: "history_item demo_Unmarshal demo_Parse ?bad = Failed (SyntaxError ''invalid character'')"
    by code_simp
  have a: "map (history_item demo_Unmarshal demo_Parse) [?e5, ?e0, ?e3] = map Ok [5, 0, 3]"
    using i5 i0 i3 by simp
  have b: "map (history_item demo_Unmarshal demo_Parse) [?e3] = map Ok [3]"
    using i3 by simp
  have m1: "map_of [(''history'', VList [?e5, ?e0, ?e3])] ''history'' = Some (VList [?e5, ?e0, ?e3])"
    by simp
  have m2: "map_of [(''history'', VList [?e3, ?bad, ?e9])] ''history'' = Some (VList [?e3, ?bad, ?e9])"
    by simp
  have mx: "Max (set [5, 0, 3 :: int]) = 5" by simp
  have "fetchDetailOfTag demo_Unmarshal demo_Parse ''a'' ''v1'' (Inr [(''history'', VList [?e5, ?e0, ?e3])]) =
     [Send \<lparr>Type = DataTypeTagDetail, Repo = ''a'', Tag = ''v1'',
            Target = VMap [(''created'', VTime (Max (set [5, 0, 3])))]\<rparr>, WgDone]"
    using latest_creation_of_decodable_history [OF m1, of demo_Unmarshal demo_Parse "''a''" "''v1''"] a
    by blast
  moreover have "fetchDetailOfTag demo_Unmarshal demo_Parse ''a'' ''v2'' (Inr [(''history'', VList [?e3, ?bad, ?e9])]) =
     [Log (SyntaxError ''invalid character''), WgDone]"
  proof -
    have split: "[?e3, ?bad, ?e9] = [?e3] @ ?bad # [?e9]" by simp
    show ?thesis
      using latest_creation_of_decodable_history [OF m2, of demo_Unmarshal demo_Parse "''a''" "''v2''"]
        split b ib by blast
  qed
  ultimately show ?thesis using mx by simp
qed

text \<open>
  C2 as stated fails: the first entry of this history parses, to the instant 5, the
  second does not decode, and no \<^verbatim>\<open>created\<close> value is computed at all.
\<close>

theorem malformed_entry_aborts_tag:
  "history_item demo_Unmarshal demo_Parse (VMap [(''v1Compatibility'', VStr ''{created:T5}'')]) = Ok 5 \<and>
   fetchDetailOfTag demo_Unmarshal demo_Parse ''a'' ''v1''
     (Inr [(''history'', VList [VMap [(''v1Compatibility'', VStr ''{created:T5}'')],
                                VMap [(''v1Compatibility'', VStr ''{broken'')]])]) =
     [Log (SyntaxError ''invalid character''), WgDone]"
  by code_simp

text \<open>
  C3, as amended. For every tag whose manifest history is not empty and whose
  entries all fail to decode, \<open>fetchDetailOfTag\<close> logs the error of the first entry
  and sends nothing: the tag is left out of the result, no marker is produced for
  it; the task does not panic and performs its \<^verbatim>\<open>wg.Done()\<close>.
\<close>

theorem undecodable_history_drops_tag:
  assumes "map_of m ''history'' = Some (VList items)" and "items \<noteq> []"
    and "\<forall>item\<in>set items. \<exists>err. history_item Unmarshal Parse item = Failed err"
  shows "\<exists>err. history_item Unmarshal Parse (hd items) = Failed err \<and>
           fetchDetailOfTag Unmarshal Parse repo tag (Inr m) = [Log err, WgDone]"
proof -
  from assms(2) obtain item post where items: "items = item # post" by (cases items) auto
  with assms(3) obtain err where err: "history_item Unmarshal Parse item = Failed err" by auto
  have "map (history_item Unmarshal Parse) [] = map Ok []" by simp
  from fetchDetailOfTag_first_Failed [OF _ this err, of m post repo tag] assms(1) items
  have "fetchDetailOfTag Unmarshal Parse repo tag (Inr m) = [Log err, WgDone]" by simp
  with err items show ?thesis by auto
qed

theorem undecodable_history_drops_tag_witness:
  "fetchDetailOfTag demo_Unmarshal demo_Parse ''b'' ''old''
     (Inr [(''history'', VList [VMap [(''v1Compatibility'', VStr [])],
                                VMap [(''v1Compatibility'', VStr ''{'')]])]) =
     [Log (SyntaxError ''unexpected end of JSON input''), WgDone]"
proof -
  let ?x = "VMap [(''v1Compatibility'', VStr [])]"
  let ?y = "VMap [(''v1Compatibility'', VStr ''{'')]"
  have x: "history_item demo_Unmarshal demo_Parse ?x = Failed (SyntaxError ''unexpected end of JSON input'')"
    by code_simp
  have y: "history_item demo_Unmarshal demo_Parse ?y = Failed (SyntaxError ''invalid character'')"
    by code_simp
  have m: "map_of [(''history'', VList [?x, ?y])] ''history'' = Some (VList [?x, ?y])" by simp
  have ne: "[?x, ?y] \<noteq> []" by simp
  have all: "\<forall>item\<in>set [?x, ?y]. \<exists>err. history_item demo_Unmarshal demo_Parse item = Failed err"
    using x y by simp
  from undecodable_history_drops_tag [OF m ne all, of "''b''" "''old''"] x
  show ?thesis by simp
qed

text \<open>
  C3 as stated fails: no entry of this history decodes, and the task sends no
  payload, hence no marker of any kind, for the tag.
\<close>

theorem no_unavailable_marker:
  "fetchDetailOfTag demo_Unmarshal demo_Parse ''b'' ''v7''
     (Inr [(''history'', VList [VMap [(''v1Compatibility'', VStr ''{broken'')],
                                VMap [(''v1Compatibility'', VStr ''{broken too'')]])]) =
     [Log (SyntaxError ''invalid character''), WgDone]"
  by code_simp

text \<open>
  An empty history passes the loop with an empty \<^verbatim>\<open>h\<close>, and \<^verbatim>\<open>h[len(h) - 1]\<close>
  panics.
\<close>

lemma empty_history_panics:
  "fetchDetailOfTag Unmarshal Parse repo tag (Inr [(''history'', VList [])]) = [WgDone, Panic]"
  by (simp add: fetchDetailOfTag_def sort_Slice_def)

lemma created_unparsable_item:
  "created_unparsable Unmarshal Parse item \<Longrightarrow> history_item Unmarshal Parse item = Ok 0"
proof -
  assume cu: "created_unparsable Unmarshal Parse item"
  then obtain i where i: "item = VMap i"
    by (cases item) (simp_all add: created_unparsable_def)
  with cu obtain str where str: "map_of i ''v1Compatibility'' = Some (VStr str)"
    by (auto simp: created_unparsable_def split: option.splits iface.splits)
  with cu i obtain msg where msg: "Unmarshal str = Inr msg"
    by (cases "Unmarshal str") (simp_all add: created_unparsable_def)
  with cu i str obtain c where c: "map_of msg ''created'' = Some (VStr c)"
    by (auto simp: created_unparsable_def split: option.splits iface.splits)
  with cu i str msg have "isl (Parse c)" by (simp add: created_unparsable_def)
  then have "created_of Parse c = 0" by (cases "Parse c") (simp_all add: created_of_def)
  with i str msg c show ?thesis by (simp add: history_item_def)
qed

text \<open>
  C9. For every history entry whose embedded JSON decodes and whose \<^verbatim>\<open>created\<close>
  string \<^verbatim>\<open>time.Parse\<close> rejects, the entry enters the candidates for the maximum
  with the zero time: it is neither skipped nor an error. Hence a tag whose history
  consists of such entries (there being at least one) is sent with the zero time.
\<close>

theorem unparsable_created_counts_as_zero:
  "(created_unparsable Unmarshal Parse item \<longrightarrow> history_item Unmarshal Parse item = Ok 0) \<and>
   (map_of m ''history'' = Some (VList items) \<and> items \<noteq> [] \<and>
    (\<forall>item\<in>set items. created_unparsable Unmarshal Parse item) \<longrightarrow>
      fetchDetailOfTag Unmarshal Parse repo tag (Inr m) =
        [Send \<lparr>Type = DataTypeTagDetail, Repo = repo, Tag = tag,
               Target = VMap [(''created'', VTime 0)]\<rparr>, WgDone])"
proof (intro conjI impI)
  assume "created_unparsable Unmarshal Parse item"
  then show "history_item Unmarshal Parse item = Ok 0" by (rule created_unparsable_item)
next
  assume a: "map_of m ''history'' = Some (VList items) \<and> items \<noteq> [] \<and>
    (\<forall>item\<in>set items. created_unparsable Unmarshal Parse item)"
  let ?ts = "replicate (length items) (0::int)"
  have "\<forall>item\<in>set items. history_item Unmarshal Parse item = Ok 0"
    using a created_unparsable_item by blast
  then have "map (history_item Unmarshal Parse) items = map Ok ?ts"
    by (induction items) simp_all
  moreover have "?ts \<noteq> []" using a by simp
  moreover have "Max (set ?ts) = 0" using a by simp
  ultimately show "fetchDetailOfTag Unmarshal Parse repo tag (Inr m) =
        [Send \<lparr>Type = DataTypeTagDetail, Repo = repo, Tag = tag,
               Target = VMap [(''created'', VTime 0)]\<rparr>, WgDone]"
    using fetchDetailOfTag_all_Ok [of m items Unmarshal Parse ?ts repo tag] a by simp
qed

theorem unparsable_created_counts_as_zero_witness:
  "created_unparsable demo_Unmarshal demo_Parse (VMap [(''v1Compatibility'', VStr ''{created:soon}'')]) \<and>
   history_item demo_Unmarshal demo_Parse (VMap [(''v1Compatibility'', VStr ''{created:soon}'')]) = Ok 0 \<and>
   fetchDetailOfTag demo_Unmarshal demo_Parse ''a'' ''v3''
     (Inr [(''history'', VList [VMap [(''v1Compatibility'', VStr ''{created:soon}'')],
                                VMap [(''v1Compatibility'', VStr ''{created:later}'')]])]) =
     [Send \<lparr>Type = DataTypeTagDetail, Repo = ''a'', Tag = ''v3'',
            Target = VMap [(''created'', VTime 0)]\<rparr>, WgDone]"
proof -
  let ?x = "VMap [(''v1Compatibility'', VStr ''{created:soon}'')]"
  let ?y = "VMap [(''v1Compatibility'', VStr ''{created:later}'')]"
  have x: "created_unparsable demo_Unmarshal demo_Parse ?x" by code_simp
  have y: "created_unparsable demo_Unmarshal demo_Parse ?y" by code_simp
  have m: "map_of [(''history'', VList [?x, ?y])] ''history'' = Some (VList [?x, ?y])" by simp
  have all: "\<forall>item\<in>set [?x, ?y]. created_unparsable demo_Unmarshal demo_Parse item"
    using x y by simp
  from unparsable_created_counts_as_zero [of demo_Unmarshal demo_Parse ?x "[(''history'', VList [?x, ?y])]" "[?x, ?y]" "''a''" "''v3''"]
    x m all
  show ?thesis by simp
qed

section \<open>Properties of the dispatcher\<close>

text \<open>
  What a step can be, what an effect can do, and what the handler of a payload can
  do: the case distinctions behind the invariants.
\<close>

lemma step_cases [case_names Idle Request Perform Receive Wake Finish]:
  obtains
    (Idle) "step Get Unmarshal Parse addr ev s = s"
  | (Request) i c where "\<not> panicked s" "returned s = None" "i < length (goroutines s)"
      "goroutines s ! i = Spawned c"
      "step Get Unmarshal Parse addr ev s =
         s\<lparr>reqCounter := reqCounter s + 1,
           goroutines := (goroutines s)
             [i := Running (task Unmarshal Parse c
                      (getForMap Unmarshal (Get (reqCounter s) (call_url addr c))))]\<rparr>"
  | (Perform) i a rest where "\<not> panicked s" "returned s = None" "i < length (goroutines s)"
      "goroutines s ! i = Running (a # rest)"
      "step Get Unmarshal Parse addr ev s = perform i a rest s"
  | (Receive) i payload rest where "\<not> panicked s" "returned s = None"
      "i < length (goroutines s)" "goroutines s ! i = Running (Send payload # rest)"
      "step Get Unmarshal Parse addr ev s =
         on_payload payload
           (s\<lparr>goroutines := (goroutines s)[i := Running rest],
              received := received s @ [payload]\<rparr>)"
  | (Wake) "\<not> panicked s" "returned s = None" "watcher s = Waiting" "wg s = 0"
      "step Get Unmarshal Parse addr ev s = s\<lparr>watcher := Signalling\<rparr>"
  | (Finish) "\<not> panicked s" "returned s = None" "watcher s = Signalling"
      "step Get Unmarshal Parse addr ev s =
         s\<lparr>watcher := Exited, returned := Some (finalize (result s))\<rparr>"
proof (cases "panicked s \<or> returned s \<noteq> None")
  case True
  then have "step Get Unmarshal Parse addr ev s = s" by (simp add: step_def)
  then show ?thesis by (rule Idle)
next
  case False
  then have live: "\<not> panicked s" "returned s = None" by auto
  show ?thesis
  proof (cases ev)
    case (Run i)
    show ?thesis
    proof (cases "i < length (goroutines s)")
      case True
      show ?thesis
      proof (cases "goroutines s ! i")
        case (Spawned c)
        show ?thesis
          by (rule Request [OF live True Spawned]) (use Run True live Spawned in \<open>simp add: step_def\<close>)
      next
        case (Running as)
        show ?thesis
        proof (cases as)
          case Nil
          with Running Run True live have "step Get Unmarshal Parse addr ev s = s"
            by (simp add: step_def)
          then show ?thesis by (rule Idle)
        next
          case (Cons a rest)
          show ?thesis
            by (rule Perform [OF live True, of a rest])
              (use Run True live Running Cons in \<open>simp_all add: step_def\<close>)
        qed
      qed
    next
      case False
      with Run live have "step Get Unmarshal Parse addr ev s = s" by (simp add: step_def)
      then show ?thesis by (rule Idle)
    qed
  next
    case (Recv i)
    show ?thesis
    proof (cases "i < length (goroutines s) \<and>
                  (\<exists>payload rest. goroutines s ! i = Running (Send payload # rest))")
      case True
      then obtain payload rest where g: "goroutines s ! i = Running (Send payload # rest)"
        and i: "i < length (goroutines s)" by auto
      show ?thesis
        by (rule Receive [OF live i g]) (use Recv i g live in \<open>simp add: step_def\<close>)
    next
      case False
      with Recv live have "step Get Unmarshal Parse addr ev s = s"
        by (auto simp: step_def split: goroutine.splits list.splits action.splits)
      then show ?thesis by (rule Idle)
    qed
  next
    case Wake
    show ?thesis
    proof (cases "watcher s = Waiting \<and> wg s = 0")
      case True
      then have w: "watcher s = Waiting" "wg s = 0" by auto
      show ?thesis
        by (rule that(5) [OF live w]) (use Wake live w in \<open>simp add: step_def\<close>)
    next
      case False
      with Wake live have "step Get Unmarshal Parse addr ev s = s" by (auto simp: step_def)
      then show ?thesis by (rule Idle)
    qed
  next
    case Finish
    show ?thesis
    proof (cases "watcher s = Signalling")
      case True
      show ?thesis
        by (rule that(6) [OF live True]) (use Finish live True in \<open>simp add: step_def\<close>)
    next
      case False
      with Finish live have "step Get Unmarshal Parse addr ev s = s" by (auto simp: step_def)
      then show ?thesis by (rule Idle)
    qed
  qed
qed

lemma getRepoInfo_invariant:
  assumes "Q init"
    and "\<And>ev s. Q s \<Longrightarrow> Q (step Get Unmarshal Parse addr ev s)"
  shows "Q (getRepoInfo Get Unmarshal Parse addr sched)"
proof -
  have "Q s \<Longrightarrow> Q (fold (step Get Unmarshal Parse addr) sched s)" for s
    by (induction sched arbitrary: s) (simp_all add: assms(2))
  then show ?thesis using assms(1) by (simp add: getRepoInfo_def)
qed

lemma perform_cases [case_names Stays Goes Dies]:
  obtains
    (Stays) "perform i a rest s = s"
  | (Goes) n where "a = WgDone \<longrightarrow> 0 < wg s"
      "perform i a rest s = s\<lparr>wg := n, goroutines := (goroutines s)[i := Running rest]\<rparr>"
  | (Dies) "perform i a rest s = s\<lparr>panicked := True\<rparr>"
proof (cases a)
  case (Log err)
  show ?thesis by (rule Goes [of "wg s"]) (simp_all add: Log perform_def)
next
  case (Send p)
  show ?thesis by (rule Stays) (simp add: Send perform_def)
next
  case (WgAdd n)
  show ?thesis by (rule Goes [of "wg s + int n"]) (simp_all add: WgAdd perform_def)
next
  case WgDone
  show ?thesis
  proof (cases "wg s - 1 < 0")
    case True
    show ?thesis by (rule Dies) (use True in \<open>simp add: WgDone perform_def\<close>)
  next
    case False
    show ?thesis by (rule Goes [of "wg s - 1"]) (use False in \<open>simp_all add: WgDone perform_def\<close>)
  qed
next
  case Panic
  show ?thesis by (rule Dies) (simp add: Panic perform_def)
qed

lemma DataType_distinct:
  "DataTypeTagList \<noteq> DataTypeRepoList" "DataTypeTagDetail \<noteq> DataTypeRepoList"
  "DataTypeTagDetail \<noteq> DataTypeTagList" "DataTypeRepoList \<noteq> DataTypeTagList"
  "DataTypeRepoList \<noteq> DataTypeTagDetail" "DataTypeTagList \<noteq> DataTypeTagDetail"
  by (simp_all add: DataTypeRepoList_def DataTypeTagList_def DataTypeTagDetail_def)

lemma on_payload_cases [case_names Repos Tags Detail Other Dies]:
  obtains
    (Repos) repos gs p where "Type payload = DataTypeRepoList" "Target payload = VList repos"
      "spawn FetchTags repos = (gs, p)"
      "on_payload payload s = s\<lparr>goroutines := goroutines s @ gs, panicked := p\<rparr>"
  | (Tags) tags gs p where "Type payload = DataTypeTagList" "Target payload = VList tags"
      "spawn (FetchDetailOfTag (Repo payload)) tags = (gs, p)"
      "on_payload payload s = s\<lparr>goroutines := goroutines s @ gs, panicked := p\<rparr>"
  | (Detail) target t where "Type payload = DataTypeTagDetail" "Target payload = VMap target"
      "map_of target ''created'' = Some (VTime t)"
      "on_payload payload s =
         s\<lparr>result := append_detail (Repo payload) \<lparr>Tag' = Tag payload, Created = t\<rparr> (result s)\<rparr>"
  | (Other) "Type payload \<noteq> DataTypeRepoList" "Type payload \<noteq> DataTypeTagList"
      "Type payload \<noteq> DataTypeTagDetail" "on_payload payload s = s"
  | (Dies) "on_payload payload s = s\<lparr>panicked := True\<rparr>"
proof -
  consider (rs) "Type payload = DataTypeRepoList"
    | (ts) "Type payload = DataTypeTagList"
    | (td) "Type payload = DataTypeTagDetail"
    | (other) "Type payload \<noteq> DataTypeRepoList" "Type payload \<noteq> DataTypeTagList"
        "Type payload \<noteq> DataTypeTagDetail"
    by blast
  then show ?thesis
  proof cases
    case rs
    show ?thesis
    proof (cases "Target payload")
      case (VList repos)
      obtain gs p where sp: "spawn FetchTags repos = (gs, p)" by (cases "spawn FetchTags repos")
      show ?thesis
        by (rule Repos [OF rs VList sp]) (simp add: on_payload_def rs VList sp)
    qed (rule Dies, simp add: on_payload_def rs)+
  next
    case ts
    show ?thesis
    proof (cases "Target payload")
      case (VList tags)
      obtain gs p where sp: "spawn (FetchDetailOfTag (Repo payload)) tags = (gs, p)"
        by (cases "spawn (FetchDetailOfTag (Repo payload)) tags")
      show ?thesis
        by (rule Tags [OF ts VList sp]) (simp add: on_payload_def ts VList sp DataType_distinct)
    qed (rule Dies, simp add: on_payload_def ts DataType_distinct)+
  next
    case td
    show ?thesis
    proof (cases "Target payload")
      case (VMap target)
      show ?thesis
      proof (cases "\<exists>t. map_of target ''created'' = Some (VTime t)")
        case True
        then obtain t where t: "map_of target ''created'' = Some (VTime t)" by auto
        show ?thesis
          by (rule Detail [OF td VMap t]) (simp add: on_payload_def td VMap t DataType_distinct)
      next
        case False
        show ?thesis
          by (rule Dies)
            (use False in \<open>auto simp: on_payload_def td VMap DataType_distinct
               split: option.splits iface.splits\<close>)
      qed
    qed (rule Dies, simp add: on_payload_def td DataType_distinct)+
  next
    case other
    show ?thesis by (rule Other [OF other]) (simp add: on_payload_def other)
  qed
qed

lemma sends_fetchRepos:
  "p \<in> set (sends (fetchRepos got)) \<Longrightarrow>
   \<exists>m repos. got = Inr m \<and> map_of m ''repositories'' = Some (VList repos) \<and>
     p = \<lparr>Type = DataTypeRepoList, Repo = [], Tag = [], Target = VList repos\<rparr>"
  by (auto simp: fetchRepos_def split: sum.splits option.splits iface.splits)

lemma sends_fetchTags:
  "p \<in> set (sends (fetchTags repo got)) \<Longrightarrow> Type p = DataTypeTagList \<and> Repo p = repo"
  by (auto simp: fetchTags_def split: sum.splits option.splits iface.splits)

lemma sends_fetchDetailOfTag:
  "p \<in> set (sends (fetchDetailOfTag Unmarshal Parse repo tag got)) \<Longrightarrow>
   Type p = DataTypeTagDetail \<and> Repo p = repo"
  by (auto simp: fetchDetailOfTag_def Let_def
      split: sum.splits option.splits iface.splits outcome.splits if_splits)

lemma spawn_set:
  "g \<in> set (fst (spawn mk vs)) \<Longrightarrow> \<exists>s\<in>set (strings_of vs). g = Spawned (mk s)"
proof (induction vs arbitrary: g)
  case Nil
  then show ?case by simp
next
  case (Cons v vs)
  then show ?case by (cases v) (auto split: prod.splits)
qed

lemma keys_append_detail: "fst ` set (append_detail repo d res) = insert repo (fst ` set res)"
  by (simp add: append_detail_def AList.dom_update)

lemma keys_finalize: "fst ` set (finalize res) = fst ` set res"
  by (force simp: finalize_def)

lemma sends_rest: "set (sends rest) \<subseteq> set (sends (a # rest))"
  by (cases a) auto

subsection \<open>The keys of the result\<close>

lemma within_init: "within D init"
  by (simp add: within_def init_def)

lemma goroutine_within_task:
  assumes "goroutine_within D (Spawned c)"
  shows "goroutine_within D (Running (task Unmarshal Parse c got))"
proof (cases c)
  case FetchRepos
  with assms show ?thesis by simp
next
  case (FetchTags repo)
  with assms show ?thesis
    by (auto simp: payload_within_def DataType_distinct dest!: sends_fetchTags)
next
  case (FetchDetailOfTag repo tag)
  with assms show ?thesis
    by (auto simp: payload_within_def DataType_distinct dest!: sends_fetchDetailOfTag)
qed

lemma goroutine_within_fetchRepos:
  "goroutine_within (set (catalog_repos Unmarshal got))
     (Running (fetchRepos (getForMap Unmarshal got)))"
  by (auto simp: payload_within_def catalog_repos_def dest!: sends_fetchRepos)

lemma all_update:
  "\<forall>g\<in>set gs. Q g \<Longrightarrow> Q g' \<Longrightarrow> \<forall>g\<in>set (gs[i := g']). Q g"
  using set_update_subset_insert [of gs i g'] by auto

lemma spawn_all:
  assumes "spawn mk vs = (gs, p)" and "\<And>s. s \<in> set (strings_of vs) \<Longrightarrow> Q (Spawned (mk s))"
  shows "\<forall>g\<in>set gs. Q g"
proof
  fix g assume "g \<in> set gs"
  with assms(1) have "g \<in> set (fst (spawn mk vs))" by simp
  then obtain s where "s \<in> set (strings_of vs)" "g = Spawned (mk s)"
    using spawn_set by blast
  with assms(2) show "Q g" by simp
qed

lemma within_step:
  assumes D: "D = set (catalog_repos Unmarshal (Get 0 (addr @ ''/v2/_catalog'')))"
    and w: "within D s"
  shows "within D (step Get Unmarshal Parse addr ev s)"
proof (cases rule: step_cases [of Get Unmarshal Parse addr ev s])
  case Idle
  with w show ?thesis by simp
next
  case (Request i c)
  show ?thesis
  proof (cases "reqCounter s = 0")
    case True
    with w have gs: "goroutines s = [Spawned FetchRepos]" by (simp add: within_def)
    with Request have "i = 0" "c = FetchRepos" by auto
    with gs True w Request(5) show ?thesis
      using goroutine_within_fetchRepos [of Unmarshal "Get 0 (addr @ ''/v2/_catalog'')"]
      by (simp add: within_def D)
  next
    case False
    with w have all: "\<forall>g\<in>set (goroutines s). goroutine_within D g" by (simp add: within_def)
    with Request have "goroutine_within D (Spawned c)" by (metis nth_mem)
    then have "goroutine_within D (Running (task Unmarshal Parse c
        (getForMap Unmarshal (Get (reqCounter s) (call_url addr c)))))"
      by (rule goroutine_within_task)
    with all have "\<forall>g\<in>set ((goroutines s)[i := Running (task Unmarshal Parse c
        (getForMap Unmarshal (Get (reqCounter s) (call_url addr c))))]). goroutine_within D g"
      by (rule all_update)
    with w Request show ?thesis by (simp add: within_def)
  qed
next
  case (Perform i a rest)
  have nz: "reqCounter s \<noteq> 0"
  proof
    assume "reqCounter s = 0"
    with w have "goroutines s = [Spawned FetchRepos]" by (simp add: within_def)
    with Perform show False by auto
  qed
  with w have all: "\<forall>g\<in>set (goroutines s). goroutine_within D g" by (simp add: within_def)
  with Perform have "goroutine_within D (Running (a # rest))" by (metis nth_mem)
  then have "goroutine_within D (Running rest)" using sends_rest [of rest a] by auto
  with all have upd: "\<forall>g\<in>set ((goroutines s)[i := Running rest]). goroutine_within D g"
    by (rule all_update)
  show ?thesis
  proof (cases rule: perform_cases [of i a rest s])
    case Stays
    with w Perform show ?thesis by simp
  next
    case (Goes n)
    with w nz upd Perform show ?thesis by (simp add: within_def)
  next
    case Dies
    with w Perform show ?thesis by (simp add: within_def)
  qed
next
  case (Receive i payload rest)
  have nz: "reqCounter s \<noteq> 0"
  proof
    assume "reqCounter s = 0"
    with w have "goroutines s = [Spawned FetchRepos]" by (simp add: within_def)
    with Receive show False by auto
  qed
  with w have all: "\<forall>g\<in>set (goroutines s). goroutine_within D g" by (simp add: within_def)
  with Receive have g: "goroutine_within D (Running (Send payload # rest))" by (metis nth_mem)
  then have pw: "payload_within D payload" and gr: "goroutine_within D (Running rest)" by auto
  from all gr have upd: "\<forall>g\<in>set ((goroutines s)[i := Running rest]). goroutine_within D g"
    by (rule all_update)
  let ?s = "s\<lparr>goroutines := (goroutines s)[i := Running rest], received := received s @ [payload]\<rparr>"
  have ws: "within D ?s" using w nz upd Receive by (simp add: within_def)
  show ?thesis
  proof (cases rule: on_payload_cases [of payload ?s])
    case (Repos repos gs p)
    with pw have "set (strings_of repos) \<subseteq> D" by (simp add: payload_within_def)
    then have "\<forall>g\<in>set gs. goroutine_within D g"
      by (intro spawn_all [OF Repos(3)]) auto
    with ws nz upd Receive Repos(4) show ?thesis by (auto simp: within_def)
  next
    case (Tags tags gs p)
    with pw have "Repo payload \<in> D" by (simp add: payload_within_def DataType_distinct)
    then have "\<forall>g\<in>set gs. goroutine_within D g"
      by (intro spawn_all [OF Tags(3)]) auto
    with ws nz upd Receive Tags(4) show ?thesis by (auto simp: within_def)
  next
    case (Detail target t)
    with pw have "Repo payload \<in> D" by (simp add: payload_within_def DataType_distinct)
    with ws nz upd Receive Detail(4) show ?thesis by (auto simp: within_def keys_append_detail)
  next
    case Other
    with ws Receive show ?thesis by simp
  next
    case Dies
    with ws Receive show ?thesis by (simp add: within_def)
  qed
next
  case Wake
  with w show ?thesis by (simp add: within_def)
next
  case Finish
  with w show ?thesis by (simp add: within_def)
qed

text \<open>
  C4. For every registry and every schedule, when \<open>getRepoInfo\<close> returns, every key
  of the map it returns is one of the repository names in the list that the catalog
  call, the first request of the run, returned.
\<close>

theorem result_keys_declared:
  assumes "returned (getRepoInfo Get Unmarshal Parse addr sched) = Some out"
  shows "fst ` set out \<subseteq> set (catalog_repos Unmarshal (Get 0 (addr @ ''/v2/_catalog'')))"
proof -
  let ?D = "set (catalog_repos Unmarshal (Get 0 (addr @ ''/v2/_catalog'')))"
  have "within ?D (getRepoInfo Get Unmarshal Parse addr sched)"
    by (rule getRepoInfo_invariant [where Q = "within ?D"]) (simp_all add: within_init within_step)
  with assms show ?thesis by (auto simp: within_def keys_finalize)
qed

text \<open>
  The example registry lists the repositories \<^verbatim>\<open>a\<close> and \<^verbatim>\<open>b\<close>; \<^verbatim>\<open>a\<close> has three
  tags, \<^verbatim>\<open>b\<close> has none. Run to the end, \<open>getRepoInfo\<close> returns the three tags of
  \<^verbatim>\<open>a\<close>.
\<close>

lemma demo_returned:
  "returned (getRepoInfo (serve demo_pages) demo_Unmarshal demo_Parse ''reg'' demo_sched) = Some demo_out"
  by code_simp

theorem result_keys_declared_witness:
  "returned (getRepoInfo (serve demo_pages) demo_Unmarshal demo_Parse ''reg'' demo_sched) = Some demo_out \<and>
   fst ` set demo_out \<subseteq> set (catalog_repos demo_Unmarshal (serve demo_pages 0 (''reg'' @ ''/v2/_catalog''))) \<and>
   fst ` set demo_out = {''a''} \<and>
   catalog_repos demo_Unmarshal (serve demo_pages 0 (''reg'' @ ''/v2/_catalog'')) = [''a'', ''b'']"
proof -
  have "catalog_repos demo_Unmarshal (serve demo_pages 0 (''reg'' @ ''/v2/_catalog'')) = [''a'', ''b'']"
    by code_simp
  moreover have "fst ` set demo_out = {''a''}" by (simp add: demo_out_def)
  ultimately show ?thesis
    using result_keys_declared [OF demo_returned] demo_returned by simp
qed

subsection \<open>Where a key comes from, and the order of its tags\<close>

lemma has_tags_append: "has_tags ps repo \<Longrightarrow> has_tags (ps @ [p]) repo"
  by (auto simp: has_tags_def list_ex_iff)

lemma has_detail_append:
  "has_detail (ps @ [p]) repo \<longleftrightarrow>
     has_detail ps repo \<or> (Type p = DataTypeTagDetail \<and> Repo p = repo)"
  by (auto simp: has_detail_def list_ex_iff)

lemma goroutine_sourced_append:
  "goroutine_sourced ps g \<Longrightarrow> goroutine_sourced (ps @ [p]) g"
proof (cases g)
  case (Spawned c)
  assume "goroutine_sourced ps g"
  with Spawned show ?thesis by (cases c) (simp_all add: has_tags_append)
next
  case (Running as)
  assume "goroutine_sourced ps g"
  with Running show ?thesis by (auto simp: has_tags_append)
qed

lemma goroutine_sourced_task:
  assumes "goroutine_sourced ps (Spawned c)"
  shows "goroutine_sourced ps (Running (task Unmarshal Parse c got))"
proof (cases c)
  case FetchRepos
  then show ?thesis by (auto simp: DataType_distinct dest!: sends_fetchRepos)
next
  case (FetchTags repo)
  then show ?thesis by (auto simp: DataType_distinct dest!: sends_fetchTags)
next
  case (FetchDetailOfTag repo tag)
  with assms show ?thesis by (auto dest!: sends_fetchDetailOfTag)
qed

lemma set_update_cases:
  "(k', v') \<in> set (AList.update k v al) \<Longrightarrow> (k', v') = (k, v) \<or> (k', v') \<in> set al"
  by (induction al) (auto split: if_splits)

lemma append_detail_nonempty:
  assumes "\<forall>(repo, tags)\<in>set res. tags \<noteq> []"
  shows "\<forall>(repo, tags)\<in>set (append_detail r d res). tags \<noteq> []"
  using assms by (auto simp: append_detail_def dest!: set_update_cases)

lemma finalize_nonempty:
  assumes "\<forall>(repo, tags)\<in>set res. tags \<noteq> []"
  shows "\<forall>(repo, tags)\<in>set (finalize res). tags \<noteq> []"
proof -
  have "sort_Slice lt tags \<noteq> []" if "tags \<noteq> []" for tags :: "TagDetail list" and lt
    using that length_sort_Slice [of lt tags] by auto
  with assms show ?thesis by (auto simp: finalize_def)
qed

lemma strings_of_nonempty: "s \<in> set (strings_of vs) \<Longrightarrow> vs \<noteq> []"
  by (cases vs) auto

lemma sourced_init: "sourced init"
  by (simp add: sourced_def init_def has_detail_def)

lemma sourced_step:
  assumes w: "sourced s"
  shows "sourced (step Get Unmarshal Parse addr ev s)"
proof (cases rule: step_cases [of Get Unmarshal Parse addr ev s])
  case Idle
  with w show ?thesis by simp
next
  case (Request i c)
  from w have all: "\<forall>g\<in>set (goroutines s). goroutine_sourced (received s) g"
    by (simp add: sourced_def)
  with Request have "goroutine_sourced (received s) (Spawned c)" by (metis nth_mem)
  then have "goroutine_sourced (received s) (Running (task Unmarshal Parse c
      (getForMap Unmarshal (Get (reqCounter s) (call_url addr c)))))"
    by (rule goroutine_sourced_task)
  with all have "\<forall>g\<in>set ((goroutines s)[i := Running (task Unmarshal Parse c
      (getForMap Unmarshal (Get (reqCounter s) (call_url addr c))))]).
      goroutine_sourced (received s) g"
    by (rule all_update)
  with w Request show ?thesis by (simp add: sourced_def)
next
  case (Perform i a rest)
  from w have all: "\<forall>g\<in>set (goroutines s). goroutine_sourced (received s) g"
    by (simp add: sourced_def)
  with Perform have "goroutine_sourced (received s) (Running (a # rest))" by (metis nth_mem)
  then have "goroutine_sourced (received s) (Running rest)" using sends_rest [of rest a] by auto
  with all have upd: "\<forall>g\<in>set ((goroutines s)[i := Running rest]).
      goroutine_sourced (received s) g"
    by (rule all_update)
  show ?thesis
  proof (cases rule: perform_cases [of i a rest s])
    case Stays
    with w Perform show ?thesis by simp
  next
    case (Goes n)
    with w upd Perform show ?thesis by (simp add: sourced_def)
  next
    case Dies
    with w Perform show ?thesis by (simp add: sourced_def)
  qed
next
  case (Receive i payload rest)
  let ?R = "received s @ [payload]"
  let ?s = "s\<lparr>goroutines := (goroutines s)[i := Running rest], received := ?R\<rparr>"
  from w have all: "\<forall>g\<in>set (goroutines s). goroutine_sourced (received s) g"
    by (simp add: sourced_def)
  with Receive have g: "goroutine_sourced (received s) (Running (Send payload # rest))"
    by (metis nth_mem)
  then have src: "Type payload = DataTypeTagDetail \<longrightarrow> has_tags (received s) (Repo payload)"
    and gr: "goroutine_sourced (received s) (Running rest)" by auto
  from all gr have "\<forall>g\<in>set ((goroutines s)[i := Running rest]). goroutine_sourced (received s) g"
    by (rule all_update)
  then have upd: "\<forall>g\<in>set ((goroutines s)[i := Running rest]). goroutine_sourced ?R g"
    by (auto intro: goroutine_sourced_append)
  have rec: "\<forall>p\<in>set ?R. Type p = DataTypeTagDetail \<longrightarrow> has_tags ?R (Repo p)"
    using w src by (auto simp: sourced_def intro: has_tags_append)
  have ne: "\<forall>(repo, tags)\<in>set (result s). tags \<noteq> []" using w by (simp add: sourced_def)
  have keys: "fst ` set (result s) = {repo. has_detail (received s) repo}"
    using w Receive by (simp add: sourced_def)
  show ?thesis
  proof (cases rule: on_payload_cases [of payload ?s])
    case (Repos repos gs p)
    have "\<forall>g\<in>set gs. goroutine_sourced ?R g"
      by (intro spawn_all [OF Repos(3)]) simp
    with upd rec ne keys Receive Repos show ?thesis
      by (auto simp: sourced_def has_detail_append DataType_distinct)
  next
    case (Tags tags gs p)
    have "has_tags ?R (Repo payload)" if "x \<in> set (strings_of tags)" for x
      using strings_of_nonempty [OF that] Tags by (simp add: has_tags_def)
    then have "\<forall>g\<in>set gs. goroutine_sourced ?R g"
      by (intro spawn_all [OF Tags(3)]) simp
    with upd rec ne keys Receive Tags show ?thesis
      by (auto simp: sourced_def has_detail_append DataType_distinct)
  next
    case (Detail target t)
    have "fst ` set (append_detail (Repo payload) \<lparr>Tag' = Tag payload, Created = t\<rparr> (result s))
            = {repo. has_detail ?R repo}"
      using keys Detail by (auto simp: keys_append_detail has_detail_append)
    moreover note append_detail_nonempty [OF ne, of "Repo payload" "\<lparr>Tag' = Tag payload, Created = t\<rparr>"]
    ultimately show ?thesis
      using upd rec Receive Detail(4) by (simp add: sourced_def)
  next
    case Other
    with upd rec ne keys Receive show ?thesis
      by (auto simp: sourced_def has_detail_append)
  next
    case Dies
    with upd rec ne Receive show ?thesis by (simp add: sourced_def)
  qed
next
  case Wake
  with w show ?thesis by (simp add: sourced_def)
next
  case Finish
  with w show ?thesis by (simp add: sourced_def)
qed

lemma sourced_getRepoInfo: "sourced (getRepoInfo Get Unmarshal Parse addr sched)"
  by (rule getRepoInfo_invariant [where Q = sourced]) (simp_all add: sourced_init sourced_step)

text \<open>
  C10. For every run that returns, a repository name is a key of the map returned
  if and only if the dispatcher received at least one tag detail for it, and no key
  is mapped to an empty sequence. In particular a key is present only if a tag list
  that is not empty was received for it: a repository whose tag list is empty, or
  whose tag list could not be fetched, or none of whose manifests gave a tag detail,
  is left out.
\<close>

theorem key_iff_detail_received:
  assumes "returned (getRepoInfo Get Unmarshal Parse addr sched) = Some out"
  shows "(repo \<in> fst ` set out \<longleftrightarrow>
            has_detail (received (getRepoInfo Get Unmarshal Parse addr sched)) repo) \<and>
         (\<forall>tags. (repo, tags) \<in> set out \<longrightarrow> tags \<noteq> []) \<and>
         (repo \<in> fst ` set out \<longrightarrow>
            has_tags (received (getRepoInfo Get Unmarshal Parse addr sched)) repo)"
proof -
  let ?s = "getRepoInfo Get Unmarshal Parse addr sched"
  have s: "sourced ?s" by (rule sourced_getRepoInfo)
  with assms have out: "out = finalize (result ?s)" and np: "\<not> panicked ?s"
    by (simp_all add: sourced_def)
  from s np have keys: "fst ` set out = {repo. has_detail (received ?s) repo}"
    by (simp add: sourced_def out keys_finalize)
  have ne: "\<forall>(repo, tags)\<in>set out. tags \<noteq> []"
    unfolding out using s by (intro finalize_nonempty) (simp add: sourced_def)
  have "has_tags (received ?s) repo" if "has_detail (received ?s) repo"
    using that s by (auto simp: sourced_def has_detail_def list_ex_iff)
  with keys ne show ?thesis by auto
qed

theorem key_iff_detail_received_witness:
  "returned (getRepoInfo (serve demo_pages) demo_Unmarshal demo_Parse ''reg'' demo_sched) = Some demo_out \<and>
   ''a'' \<in> fst ` set demo_out \<and>
   has_detail (received (getRepoInfo (serve demo_pages) demo_Unmarshal demo_Parse ''reg'' demo_sched)) ''a'' \<and>
   has_tags (received (getRepoInfo (serve demo_pages) demo_Unmarshal demo_Parse ''reg'' demo_sched)) ''a'' \<and>
   ''b'' \<notin> fst ` set demo_out \<and>
   \<not> has_detail (received (getRepoInfo (serve demo_pages) demo_Unmarshal demo_Parse ''reg'' demo_sched)) ''b''"
proof -
  have a: "''a'' \<in> fst ` set demo_out" and b: "''b'' \<notin> fst ` set demo_out"
    by (simp_all add: demo_out_def)
  from key_iff_detail_received [OF demo_returned, of "''a''"]
    key_iff_detail_received [OF demo_returned, of "''b''"] a b demo_returned
  show ?thesis by blast
qed

lemma returned_finalize:
  assumes "returned (getRepoInfo Get Unmarshal Parse addr sched) = Some out"
  shows "out = finalize (result (getRepoInfo Get Unmarshal Parse addr sched))"
  using sourced_getRepoInfo [of Get Unmarshal Parse addr sched] assms by (simp add: sourced_def)

text \<open>
  C5, as amended. For every repository's sequence in the map returned, the \<^verbatim>\<open>Created\<close>
  values do not increase from the first element to the last. Nothing orders
  entries of equal \<^verbatim>\<open>Created\<close> by tag name, and no value stands for an unavailable
  time: entries of equal \<^verbatim>\<open>Created\<close> are left in the order \<^verbatim>\<open>sort.Slice\<close> leaves
  them in, which depends on the order in which the tag details arrived.
\<close>

theorem tags_sorted_by_Created_descending:
  assumes "returned (getRepoInfo Get Unmarshal Parse addr sched) = Some out"
    and "(repo, tags) \<in> set out"
  shows "sorted_wrt (\<lambda>t u. Created t \<ge> Created u) tags"
proof -
  from returned_finalize [OF assms(1)] assms(2)
  obtain tags0 where "tags = sort_Slice (\<lambda>t u. After (Created t) (Created u)) tags0"
    by (auto simp: finalize_def)
  moreover have "sorted_wrt (\<lambda>t u. - Created t \<le> - Created u)
      (sort_Slice (\<lambda>t u. After (Created t) (Created u)) tags0)"
    by (rule sorted_sort_Slice) (simp add: After_def)
  ultimately show ?thesis by simp
qed

theorem tags_sorted_by_Created_descending_witness:
  "returned (getRepoInfo (serve demo_pages) demo_Unmarshal demo_Parse ''reg'' demo_sched) = Some demo_out \<and>
   (''a'', [\<lparr>Tag' = ''v0'', Created = 9\<rparr>, \<lparr>Tag' = ''v2'', Created = 5\<rparr>,
            \<lparr>Tag' = ''v1'', Created = 5\<rparr>]) \<in> set demo_out \<and>
   sorted_wrt (\<lambda>t u. Created t \<ge> Created u)
     [\<lparr>Tag' = ''v0'', Created = 9\<rparr>, \<lparr>Tag' = ''v2'', Created = 5\<rparr>, \<lparr>Tag' = ''v1'', Created = 5\<rparr>]"
proof -
  have m: "(''a'', [\<lparr>Tag' = ''v0'', Created = 9\<rparr>, \<lparr>Tag' = ''v2'', Created = 5\<rparr>,
            \<lparr>Tag' = ''v1'', Created = 5\<rparr>]) \<in> set demo_out"
    by (simp add: demo_out_def)
  from tags_sorted_by_Created_descending [OF demo_returned m] demo_returned m
  show ?thesis by blast
qed

text \<open>
  C5 as stated fails: the tags \<^verbatim>\<open>v2\<close> and \<^verbatim>\<open>v1\<close> have the same \<^verbatim>\<open>Created\<close>. When
  the detail of \<^verbatim>\<open>v2\<close> arrives first the output has \<^verbatim>\<open>v2\<close> before \<^verbatim>\<open>v1\<close>, which
  is not ascending by name; when the detail of \<^verbatim>\<open>v1\<close> arrives first the same
  registry gives the other order.
\<close>

theorem tie_order_follows_arrival:
  "returned (getRepoInfo (serve demo_pages) demo_Unmarshal demo_Parse ''reg'' demo_sched) =
     Some [(''a'', [\<lparr>Tag' = ''v0'', Created = 9\<rparr>, \<lparr>Tag' = ''v2'', Created = 5\<rparr>,
                    \<lparr>Tag' = ''v1'', Created = 5\<rparr>])] \<and>
   returned (getRepoInfo (serve demo_pages) demo_Unmarshal demo_Parse ''reg'' demo_sched') =
     Some [(''a'', [\<lparr>Tag' = ''v0'', Created = 9\<rparr>, \<lparr>Tag' = ''v1'', Created = 5\<rparr>,
                    \<lparr>Tag' = ''v2'', Created = 5\<rparr>])]"
  by code_simp

subsection \<open>Failing tasks and the counter\<close>

lemma task_error: "task Unmarshal Parse c (Inl err) = [Log err, WgDone]"
  by (cases c) (simp_all add: fetchRepos_def fetchTags_def fetchDetailOfTag_def)

lemma failed_task_run:
  assumes "\<not> panicked s" "returned s = None" "i < length (goroutines s)"
    "goroutines s ! i = Spawned c"
    "getForMap Unmarshal (Get (reqCounter s) (call_url addr c)) = Inl err" "0 < wg s"
  shows "fold (step Get Unmarshal Parse addr) [Run i, Run i, Run i] s =
         s\<lparr>reqCounter := reqCounter s + 1, wg := wg s - 1,
           goroutines := (goroutines s)[i := Running []]\<rparr>"
proof -
  let ?s1 = "s\<lparr>reqCounter := reqCounter s + 1,
                goroutines := (goroutines s)[i := Running [Log err, WgDone]]\<rparr>"
  let ?s2 = "s\<lparr>reqCounter := reqCounter s + 1,
                goroutines := (goroutines s)[i := Running [WgDone]]\<rparr>"
  have 1: "step Get Unmarshal Parse addr (Run i) s = ?s1"
    using assms by (simp add: step_def task_error)
  have 2: "step Get Unmarshal Parse addr (Run i) ?s1 = ?s2"
    using assms by (simp add: step_def perform_def)
  have 3: "step Get Unmarshal Parse addr (Run i) ?s2 =
         s\<lparr>reqCounter := reqCounter s + 1, wg := wg s - 1,
           goroutines := (goroutines s)[i := Running []]\<rparr>"
    using assms by (simp add: step_def perform_def)
  show ?thesis by (simp only: fold.simps comp_apply id_apply 1 2 3)
qed

text \<open>
  C7, as amended. For every error that \<open>getForMap\<close> returns in a task (the error of
  the request, of the read of the body, or of the decoding of the body), and for
  the error of decoding the embedded document of a history entry, the task logs
  the error, sends no payload, and performs its \<^verbatim>\<open>wg.Done()\<close> without a panic: run
  from a state whose counter is positive, the task lowers the counter by one,
  ends, and leaves the payloads received, the result and the watcher as they were.
  An error of \<^verbatim>\<open>time.Parse\<close> is not handled as an error (see C9).
\<close>

theorem fetch_error_drops_task:
  "task Unmarshal Parse c (Inl err) = [Log err, WgDone] \<and>
   (\<forall>m pre item post ts.
      map_of m ''history'' = Some (VList (pre @ item # post)) \<and>
      map (history_item Unmarshal Parse) pre = map Ok ts \<and>
      history_item Unmarshal Parse item = Failed err \<longrightarrow>
      task Unmarshal Parse (FetchDetailOfTag repo tag) (Inr m) = [Log err, WgDone]) \<and>
   (\<not> panicked s \<and> returned s = None \<and> i < length (goroutines s) \<and>
    goroutines s ! i = Spawned c \<and>
    getForMap Unmarshal (Get (reqCounter s) (call_url addr c)) = Inl err \<and> 0 < wg s \<longrightarrow>
      fold (step Get Unmarshal Parse addr) [Run i, Run i, Run i] s =
        s\<lparr>reqCounter := reqCounter s + 1, wg := wg s - 1,
          goroutines := (goroutines s)[i := Running []]\<rparr>)"
  using task_error failed_task_run fetchDetailOfTag_first_Failed by auto

theorem fetch_error_drops_task_witness:
  "task demo_Unmarshal demo_Parse (FetchTags ''a'') (Inl (GetError ''connection refused'')) =
     [Log (GetError ''connection refused''), WgDone] \<and>
   task demo_Unmarshal demo_Parse (FetchDetailOfTag ''a'' ''v4'')
     (Inr [(''history'', VList [VMap [(''v1Compatibility'', VStr ''{created:T9}'')],
                                VMap [(''v1Compatibility'', VStr ''}'')]])]) =
     [Log (SyntaxError ''invalid character''), WgDone] \<and>
   fold (step (serve catalog_only) demo_Unmarshal demo_Parse ''reg'') [Run 1, Run 1, Run 1]
     (getRepoInfo (serve catalog_only) demo_Unmarshal demo_Parse ''reg'' [Run 0, Recv 0, Run 0]) =
     \<lparr>wg = 2, reqCounter = 2,
      goroutines = [Running [WgDone], Running [], Spawned (FetchTags ''b'')],
      result = [], watcher = Waiting, returned = None, panicked = False,
      received = [\<lparr>Type = DataTypeRepoList, Repo = [], Tag = [],
                   Target = VList [VStr ''a'', VStr ''b'']\<rparr>]\<rparr>"
proof -
  let ?s = "getRepoInfo (serve catalog_only) demo_Unmarshal demo_Parse ''reg'' [Run 0, Recv 0, Run 0]"
  let ?good = "VMap [(''v1Compatibility'', VStr ''{created:T9}'')]"
  let ?bad = "VMap [(''v1Compatibility'', VStr ''}'')]"
  have s: "?s = \<lparr>wg = 3, reqCounter = 1,
      goroutines = [Running [WgDone], Spawned (FetchTags ''a''), Spawned (FetchTags ''b'')],
      result = [], watcher = Waiting, returned = None, panicked = False,
      received = [\<lparr>Type = DataTypeRepoList, Repo = [], Tag = [],
                   Target = VList [VStr ''a'', VStr ''b'']\<rparr>]\<rparr>"
    by code_simp
  have g: "getForMap demo_Unmarshal (serve catalog_only (reqCounter ?s) (call_url ''reg'' (FetchTags ''a'')))
           = Inl (GetError ''connection refused'')"
    unfolding s by code_simp
  have h1: "map_of [(''history'', VList [?good, ?bad])] ''history'' = Some (VList ([?good] @ ?bad # []))"
    by simp
  have h2: "map (history_item demo_Unmarshal demo_Parse) [?good] = map Ok [9]" by code_simp
  have h3: "history_item demo_Unmarshal demo_Parse ?bad = Failed (SyntaxError ''invalid character'')"
    by code_simp
  note inst = fetch_error_drops_task [of demo_Unmarshal demo_Parse "FetchTags ''a''" _ "''a''" "''v4''"
      ?s 1 "serve catalog_only" "''reg''"]
  have a: "task demo_Unmarshal demo_Parse (FetchTags ''a'') (Inl (GetError ''connection refused'')) =
     [Log (GetError ''connection refused''), WgDone]"
    using inst [of "GetError ''connection refused''"] by blast
  have b: "task demo_Unmarshal demo_Parse (FetchDetailOfTag ''a'' ''v4'') (Inr [(''history'', VList [?good, ?bad])]) =
     [Log (SyntaxError ''invalid character''), WgDone]"
    using inst [of "SyntaxError ''invalid character''"] h1 h2 h3 by (metis append_Cons append_Nil)
  have c: "fold (step (serve catalog_only) demo_Unmarshal demo_Parse ''reg'') [Run 1, Run 1, Run 1] ?s =
        ?s\<lparr>reqCounter := reqCounter ?s + 1, wg := wg ?s - 1,
          goroutines := (goroutines ?s)[1 := Running []]\<rparr>"
  proof -
    have pre: "\<not> panicked ?s \<and> returned ?s = None \<and> 1 < length (goroutines ?s) \<and>
      goroutines ?s ! 1 = Spawned (FetchTags ''a'') \<and> 0 < wg ?s"
      unfolding s by simp
    with g inst [of "GetError ''connection refused''"] show ?thesis by blast
  qed
  show ?thesis using a b c unfolding s by simp
qed

text \<open>
  C7 as stated fails: the \<^verbatim>\<open>created\<close> string of this entry does not parse, nothing
  is logged, and the task sends a tag detail, with the zero time.
\<close>

theorem timestamp_error_still_sends:
  "demo_Parse ''later'' = Inl (ParseError ''later'') \<and>
   task demo_Unmarshal demo_Parse (FetchDetailOfTag ''a'' ''v5'')
     (Inr [(''history'', VList [VMap [(''v1Compatibility'', VStr ''{created:later}'')]])]) =
     [Send \<lparr>Type = DataTypeTagDetail, Repo = ''a'', Tag = ''v5'',
            Target = VMap [(''created'', VTime 0)]\<rparr>, WgDone]"
  by code_simp

text \<open>
  A document of an unexpected shape, such as a tag list that is \<^verbatim>\<open>null\<close>, fails the
  type assertion: the task panics.
\<close>

lemma shape_error_panics:
  "fetchTags repo (Inr [(''tags'', VNil)]) = [WgDone, Panic]"
  by (simp add: fetchTags_def)

text \<open>
  C1. The claim: the counter never reaches zero while a child task is still to be
  processed, and the function returns only after all work is done. The program does
  not keep it. \<^verbatim>\<open>fetchRepos\<close> calls \<^verbatim>\<open>wg.Add(len(repos))\<close> after its send, and the
  receiver starts the children on receipt. In the example registry, let the task for
  \<^verbatim>\<open>b\<close>, whose tag list is empty, run to its \<^verbatim>\<open>wg.Done()\<close> before \<^verbatim>\<open>fetchRepos\<close>
  goes on: the counter is zero while \<^verbatim>\<open>fetchRepos\<close> has not yet added its two
  children and the task for \<^verbatim>\<open>a\<close> has not run; the watcher may wake and
  \<open>getRepoInfo\<close> returns an empty map. When both children fail before the
  \<^verbatim>\<open>wg.Add\<close>, the second \<^verbatim>\<open>wg.Done()\<close> panics on a negative counter.
\<close>

theorem counter_zero_while_children_pending:
  "wg (getRepoInfo (serve demo_pages) demo_Unmarshal demo_Parse ''reg''
         [Run 0, Recv 0, Run 2, Recv 2, Run 2, Run 2]) = 0 \<and>
   goroutines (getRepoInfo (serve demo_pages) demo_Unmarshal demo_Parse ''reg''
         [Run 0, Recv 0, Run 2, Recv 2, Run 2, Run 2]) =
     [Running [WgAdd 2, WgDone], Spawned (FetchTags ''a''), Running []] \<and>
   returned (getRepoInfo (serve demo_pages) demo_Unmarshal demo_Parse ''reg''
         [Run 0, Recv 0, Run 2, Recv 2, Run 2, Run 2, Wake, Finish]) = Some [] \<and>
   panicked (getRepoInfo (serve catalog_only) demo_Unmarshal demo_Parse ''reg''
         [Run 0, Recv 0, Run 1, Run 1, Run 1, Run 2, Run 2, Run 2])"
  by code_simp

end
